theory Spec2Isabelle
  imports Complex_Main "HOL-Library.AList" "HOL-Library.Word"
begin

section \<open>pyasst.spider: the request handler and its delay\<close>

text \<open>
  A shallow embedding of \<^verbatim>\<open>src/pyasst/spider.py\<close>. Conventions:
  \<^item> a Python \<^verbatim>\<open>str\<close> is the \<open>string\<close> of its UTF-8 encoding (emptiness, equality and
    concatenation are those of the text); \<^verbatim>\<open>bytes\<close> is a list of 8-bit words;
  \<^item> a Python \<^verbatim>\<open>int\<close> is an \<open>int\<close>, a finite \<^verbatim>\<open>float\<close> a \<open>real\<close> (the only float of the
    module, the sleep time, is passed to \<^verbatim>\<open>time.sleep\<close> and never computed with);
  \<^item> a \<^verbatim>\<open>dict\<close> with string keys is an association list in insertion order,
    \<open>map_of\<close> reads it and \<open>AList.update\<close> assigns to a key;
  \<^item> an exception is a value of \<open>exn\<close>; a function that can raise returns
    \<open>exn + 'a\<close> together with the state it leaves behind;
  \<^item> every call that leaves the module (\<^verbatim>\<open>time.sleep\<close>, the \<^verbatim>\<open>requests\<close> verbs, the file
    system) is appended as an \<open>event\<close> to a trace, in the order of the calls; \<open>Sleep s\<close> is
    a call \<^verbatim>\<open>time.sleep(s)\<close> that returned, \<open>Send rq\<close> a call of a bound verb, whether it
    returned or raised.
\<close>

subsection \<open>Values, exceptions, events\<close>

type_synonym bytes = "8 word list"

datatype exn =
    RuntimeError string
  | ZeroDivisionError
  | ValueError
  | AttributeError
  | TypeError
  | OverflowError
  | OSError
  | ConnectionError
  | Timeout

text \<open>\<^verbatim>\<open>self.session\<close>: a \<^verbatim>\<open>requests.Session()\<close> or the \<^verbatim>\<open>requests\<close> module itself.\<close>

datatype session = Session | Requests

text \<open>A bound verb of the session, such as \<^verbatim>\<open>self.session.get\<close>.\<close>

datatype bound = Bound session string

datatype delay_class = Delay | FalseDelay

text \<open>
  An instance of \<^verbatim>\<open>Delay\<close> or of its subclass \<^verbatim>\<open>RequestHandler._FalseDelay_\<close>, which
  inherits \<^verbatim>\<open>__init__\<close> (so it has the three attributes) and overrides \<^verbatim>\<open>action\<close>.
\<close>

record delay =
  cls :: delay_class
  counter :: int
  step :: int
  sleep :: real

text \<open>
  The Python values of the model. \<open>VDelay\<close> is an instance of one of the two delay classes,
  \<open>VClass\<close> one of the two classes itself.
\<close>

datatype pyval =
    VNone
  | VBool bool
  | VInt int
  | VStr string
  | VTuple "pyval list"
  | VList "pyval list"
  | VDict "(string \<times> pyval) list"
  | VLogger string
  | VSession session
  | VBound bound
  | VDelay delay
  | VClass delay_class

type_synonym dict = "(string \<times> pyval) list"

text \<open>
  What a \<^verbatim>\<open>requests.Response\<close> exposes to this module. \<open>res_headers\<close> is the lookup of
  \<^verbatim>\<open>res.headers\<close>, the mapping of the library (which ignores the case of a key): a key is
  in the mapping when the lookup is not \<open>None\<close>. \<open>iter_content n\<close> is the finite sequence of
  chunks that \<^verbatim>\<open>res.iter_content(n)\<close> yields.
\<close>

record response =
  status_code :: int
  res_headers :: "string \<rightharpoonup> string"
  content :: bytes
  iter_content :: "nat \<Rightarrow> bytes list"

text \<open>One call \<^verbatim>\<open>_method(url, **kwargs)\<close> of a bound verb.\<close>

record request =
  callee :: bound
  req_url :: string
  req_kwargs :: dict

datatype event =
    Sleep real
  | Send request
  | MakeDirs string
  | OpenWB string
  | IterContent nat
  | Write bytes
  | CloseResponse
  | CloseFile

type_synonym trace = "event list"

text \<open>The transport calls of a trace, in order, and their number.\<close>

fun sent :: "trace \<Rightarrow> request list" where
  "sent [] = []"
| "sent (Send rq # tr) = rq # sent tr"
| "sent (_ # tr) = sent tr"

definition sends :: "trace \<Rightarrow> nat" where
  "sends tr = length (sent tr)"

text \<open>The pauses of a trace, in order.\<close>

fun pauses :: "trace \<Rightarrow> real list" where
  "pauses [] = []"
| "pauses (Sleep s # tr) = s # pauses tr"
| "pauses (_ # tr) = pauses tr"

text \<open>The chunks written to the file, in order.\<close>

fun written :: "trace \<Rightarrow> bytes list" where
  "written [] = []"
| "written (Write b # tr) = b # written tr"
| "written (_ # tr) = written tr"

subsection \<open>The world outside the module\<close>

text \<open>
  Builtins, the \<^verbatim>\<open>requests\<close> library and the helpers of \<^verbatim>\<open>pyasst.common\<close> are parameters:
  \<^item> \<open>time_sleep\<close> is \<^verbatim>\<open>time.sleep\<close>: \<open>Some x\<close> when it raises \<open>x\<close> on the argument (a
    negative one is a \<^verbatim>\<open>ValueError\<close>, one too large for the platform an
    \<^verbatim>\<open>OverflowError\<close>), \<open>None\<close> when it sleeps and returns;
  \<^item> \<open>str_lower\<close> is \<^verbatim>\<open>str.lower\<close>;
  \<^item> \<open>transport n rq\<close> is what the bound verb does on the call \<open>rq\<close> when \<open>n\<close> calls
    were issued before it: it raises (\<open>Inl\<close>) or returns a response (\<open>Inr\<close>);
  \<^item> \<open>py_int\<close> is \<^verbatim>\<open>int\<close> on a \<^verbatim>\<open>str\<close>, which can raise;
  \<^item> \<open>os_path_split\<close> is \<^verbatim>\<open>os.path.split\<close>;
  \<^item> \<open>make_if_doesnt_exist\<close> is \<^verbatim>\<open>FileSystemUtil.make_if_doesnt_exist\<close> and
    \<open>open_wb\<close> is \<^verbatim>\<open>open(path, 'wb')\<close>: \<open>Some e\<close> when they raise \<open>e\<close>.
  Writing to the open file and iterating the chunks of a response are taken to succeed.
\<close>

record env =
  time_sleep :: "real \<Rightarrow> exn option"
  str_lower :: "string \<Rightarrow> string"
  transport :: "nat \<Rightarrow> request \<Rightarrow> exn + response"
  py_int :: "string \<Rightarrow> exn + int"
  os_path_split :: "string \<Rightarrow> string \<times> string"
  make_if_doesnt_exist :: "string \<Rightarrow> exn option"
  open_wb :: "string \<Rightarrow> exn option"

subsection \<open>Delay\<close>

text \<open>\<^verbatim>\<open>Delay.__init__(self, step=10, sleep=1)\<close>.\<close>

definition Delay_init :: "int \<Rightarrow> real \<Rightarrow> delay" where
  "Delay_init stp slp = \<lparr>cls = Delay, counter = 0, step = stp, sleep = slp\<rparr>"

definition FalseDelay_init :: "delay" where
  "FalseDelay_init = (Delay_init 10 1)\<lparr>cls := FalseDelay\<rparr>"

text \<open>
  \<^verbatim>\<open>Delay.action\<close>: the counter is stored before the test; \<^verbatim>\<open>%\<close> by zero raises
  \<^verbatim>\<open>ZeroDivisionError\<close>, and Python's \<^verbatim>\<open>%\<close> on integers is HOL's \<open>mod\<close> (the sign of the
  divisor). An exception of \<^verbatim>\<open>time.sleep\<close> leaves the method with the counter already
  stored.
\<close>

definition Delay_action :: "env \<Rightarrow> delay \<Rightarrow> trace \<Rightarrow> (exn + unit) \<times> delay \<times> trace" where
  "Delay_action e self tr =
     (let self = self\<lparr>counter := counter self + 1\<rparr> in
      if step self = 0 then (Inl ZeroDivisionError, self, tr)
      else if counter self mod step self = 0 then
        (case time_sleep e (sleep self) of
           Some x \<Rightarrow> (Inl x, self, tr)
         | None \<Rightarrow> (Inr (), self, tr @ [Sleep (sleep self)]))
      else (Inr (), self, tr))"

text \<open>\<^verbatim>\<open>_FalseDelay_.action\<close>: \<^verbatim>\<open>pass\<close>.\<close>

definition FalseDelay_action :: "delay \<Rightarrow> trace \<Rightarrow> (exn + unit) \<times> delay \<times> trace" where
  "FalseDelay_action self tr = (Inr (), self, tr)"

text \<open>\<^verbatim>\<open>self.delay.action()\<close>: the method of the instance's class.\<close>

definition action :: "env \<Rightarrow> delay \<Rightarrow> trace \<Rightarrow> (exn + unit) \<times> delay \<times> trace" where
  "action e self tr =
     (case cls self of
        Delay \<Rightarrow> Delay_action e self tr
      | FalseDelay \<Rightarrow> FalseDelay_action self tr)"

text \<open>
  \<open>n\<close> activations of a \<^verbatim>\<open>Delay\<close> in a row, as a caller would write them; an exception
  ends the sequence.
\<close>

fun activations :: "env \<Rightarrow> nat \<Rightarrow> delay \<Rightarrow> trace \<Rightarrow> (exn + unit) \<times> delay \<times> trace" where
  "activations e 0 d tr = (Inr (), d, tr)"
| "activations e (Suc n) d tr =
     (case Delay_action e d tr of
        (Inl x, d', tr') \<Rightarrow> (Inl x, d', tr')
      | (Inr _, d', tr') \<Rightarrow> activations e n d' tr')"

subsection \<open>Constants and messages\<close>

definition CHUCK_SIZE :: nat where
  "CHUCK_SIZE = 8192"

definition HEADERS :: dict where
  "HEADERS = [(''User-Agent'',
     VStr (''Mozilla/5.0 (Macintosh; Intel Mac OS X 10_15_3) AppleWebKit/537.36 (KHTML, like Gecko) ''
           @ ''Chrome/79.0.3945.130 Safari/537.36 ''))]"

text \<open>The message of line 88, in UTF-8.\<close>

definition MSG_INCOMPLETE :: string where
  "MSG_INCOMPLETE =
     [CHR 0xE5, CHR 0x8F, CHR 0x82, CHR 0xE6, CHR 0x95, CHR 0xB0, CHR 0xE4, CHR 0xB8, CHR 0x8D,
      CHR 0xE5, CHR 0xAE, CHR 0x8C, CHR 0xE6, CHR 0x95, CHR 0xB4]"

text \<open>The prefix of the message of line 92, in UTF-8; the method name follows it.\<close>

definition MSG_UNKNOWN_METHOD :: string where
  "MSG_UNKNOWN_METHOD =
     [CHR 0xE6, CHR 0x9C, CHR 0xAA, CHR 0xE7, CHR 0x9F, CHR 0xA5, CHR 0xE7, CHR 0x9A, CHR 0x84,
      CHR 0x20, CHR 0x48, CHR 0x54, CHR 0x54, CHR 0x50, CHR 0x20, CHR 0xE8, CHR 0xAF, CHR 0xB7,
      CHR 0xE6, CHR 0xB1, CHR 0x82, CHR 0xE6, CHR 0x96, CHR 0xB9, CHR 0xE5, CHR 0xBC, CHR 0x8F,
      CHR 0xEF, CHR 0xBC, CHR 0x9A]"

text \<open>The two literal parts of the format string of line 116, in UTF-8.\<close>

definition MSG_HTTP_STATUS :: string where
  "MSG_HTTP_STATUS =
     [CHR 0xE3, CHR 0x80, CHR 0x8C, CHR 0x48, CHR 0x54, CHR 0x54, CHR 0x50, CHR 0xE5, CHR 0xBC,
      CHR 0x82, CHR 0xE5, CHR 0xB8, CHR 0xB8, CHR 0xE3, CHR 0x80, CHR 0x8D, CHR 0xE7, CHR 0x8A,
      CHR 0xB6, CHR 0xE6, CHR 0x80, CHR 0x81, CHR 0xE7, CHR 0xA0, CHR 0x81, CHR 0xEF, CHR 0xBC,
      CHR 0x9A]"

definition MSG_HTTP_URL :: string where
  "MSG_HTTP_URL =
     [CHR 0xEF, CHR 0xBC, CHR 0x8C, CHR 0xE8, CHR 0xAF, CHR 0xB7, CHR 0xE6, CHR 0xB1, CHR 0x82,
      CHR 0xE5, CHR 0x9C, CHR 0xB0, CHR 0xE5, CHR 0x9D, CHR 0x80, CHR 0xEF, CHR 0xBC, CHR 0x9A]"

text \<open>\<^verbatim>\<open>'%d' % i\<close>: the decimal digits, with a minus sign when negative.\<close>

fun decimal :: "nat \<Rightarrow> string" where
  "decimal n =
     (if n < 10 then [''0123456789'' ! n]
      else decimal (n div 10) @ [''0123456789'' ! (n mod 10)])"

declare decimal.simps [simp del]

definition format_d :: "int \<Rightarrow> string" where
  "format_d i = (if i < 0 then CHR ''-'' # decimal (nat (- i)) else decimal (nat i))"

text \<open>The message of line 116 for a status code and a URL.\<close>

definition http_message :: "int \<Rightarrow> string \<Rightarrow> string" where
  "http_message code url = MSG_HTTP_STATUS @ format_d code @ MSG_HTTP_URL @ url"

subsection \<open>RequestHandler\<close>

text \<open>The dictionary of lines 60 to 68, for \<^verbatim>\<open>self.session = s\<close>.\<close>

definition bound_methods :: "session \<Rightarrow> (string \<times> bound) list" where
  "bound_methods s =
     [(''get'', Bound s ''get''),
      (''options'', Bound s ''options''),
      (''head'', Bound s ''head''),
      (''post'', Bound s ''post''),
      (''put'', Bound s ''put''),
      (''patch'', Bound s ''patch''),
      (''delete'', Bound s ''delete'')]"

text \<open>
  An instance under construction: its class and its attribute dictionary. The class
  is \<^verbatim>\<open>RequestHandler\<close> unless an assignment to \<^verbatim>\<open>__class__\<close> made it one of the delay classes.
\<close>

datatype pyclass = RequestHandler | DelayClass delay_class

record pyobj =
  ob_type :: pyclass
  ob_dict :: dict

text \<open>
  \<^verbatim>\<open>setattr(self, key, value)\<close>, which is also what an assignment \<^verbatim>\<open>self.key = value\<close> does.
  None of the three classes defines \<^verbatim>\<open>__setattr__\<close>, a property or slots, so the value goes
  to the instance dictionary, but for the three names that \<^verbatim>\<open>object\<close> handles itself:
  \<^verbatim>\<open>__class__\<close> takes a class (the three classes have the same layout, so the assignment
  changes the class) and raises \<^verbatim>\<open>TypeError\<close> on anything else, \<^verbatim>\<open>__dict__\<close> takes a dictionary,
  which replaces the instance dictionary, and raises \<^verbatim>\<open>TypeError\<close> on anything else, and
  \<^verbatim>\<open>__weakref__\<close> is not writable (\<^verbatim>\<open>AttributeError\<close>).
\<close>

definition setattr :: "pyobj \<Rightarrow> string \<Rightarrow> pyval \<Rightarrow> exn + pyobj" where
  "setattr self key v =
     (if key = ''__class__'' then
        (case v of VClass c \<Rightarrow> Inr (self\<lparr>ob_type := DelayClass c\<rparr>) | _ \<Rightarrow> Inl TypeError)
      else if key = ''__dict__'' then
        (case v of VDict d \<Rightarrow> Inr (self\<lparr>ob_dict := d\<rparr>) | _ \<Rightarrow> Inl TypeError)
      else if key = ''__weakref__'' then Inl AttributeError
      else Inr (self\<lparr>ob_dict := AList.update key v (ob_dict self)\<rparr>))"

text \<open>Assignments in a row, as the loop of lines 53 and 54 makes them; the first exception ends it.\<close>

fun setattrs :: "pyobj \<Rightarrow> dict \<Rightarrow> exn + pyobj" where
  "setattrs self [] = Inr self"
| "setattrs self ((key, v) # kwargs) =
     (case setattr self key v of Inl x \<Rightarrow> Inl x | Inr self' \<Rightarrow> setattrs self' kwargs)"

text \<open>
  \<^verbatim>\<open>self._FalseDelay_\<close> of line 83: the instance dictionary first, then the class, and only
  \<^verbatim>\<open>RequestHandler\<close> has the attribute.
\<close>

definition getattr_FalseDelay :: "pyobj \<Rightarrow> exn + pyval" where
  "getattr_FalseDelay self =
     (case map_of (ob_dict self) ''_FalseDelay_'' of
        Some v \<Rightarrow> Inr v
      | None \<Rightarrow>
          (case ob_type self of
             RequestHandler \<Rightarrow> Inr (VClass FalseDelay)
           | DelayClass c \<Rightarrow> Inl AttributeError))"

text \<open>
  A call \<^verbatim>\<open>v()\<close> without arguments: a delay class builds an instance with the defaults of
  \<^verbatim>\<open>Delay.__init__\<close>; no other value of the model can be called so (a bound verb lacks
  its \<^verbatim>\<open>url\<close> argument, the rest is not callable): \<^verbatim>\<open>TypeError\<close>.
\<close>

fun call0 :: "pyval \<Rightarrow> exn + pyval" where
  "call0 (VClass Delay) = Inr (VDelay (Delay_init 10 1))"
| "call0 (VClass FalseDelay) = Inr (VDelay FalseDelay_init)"
| "call0 _ = Inl TypeError"

text \<open>
  \<^verbatim>\<open>RequestHandler.__init__\<close>, returning the new instance, or the exception that ends the
  construction. The parameter \<open>session\<close> is a \<^verbatim>\<open>bool\<close>, \<open>retry\<close> an \<^verbatim>\<open>int\<close>, \<open>delay\<close> is \<^verbatim>\<open>None\<close> or
  a \<^verbatim>\<open>Delay\<close>; \<open>headers\<close> and \<open>encoding\<close> are any value, as the code treats them. \<open>kwargs\<close>
  holds the extra keywords in the order given. The six assignments of lines 56 to 80
  store values that do not depend on the instance (\<^verbatim>\<open>self.session\<close> is read back right
  after it is stored).
\<close>

definition init ::
  "bool \<Rightarrow> pyval \<Rightarrow> pyval \<Rightarrow> int \<Rightarrow> delay option \<Rightarrow> dict \<Rightarrow> exn + pyobj" where
  "init session headers encoding retry delay kwargs =
     (case setattrs \<lparr>ob_type = RequestHandler, ob_dict = []\<rparr> kwargs of
        Inl x \<Rightarrow> Inl x
      | Inr self \<Rightarrow>
          (let s = (if session then Session else Requests);
               headers = (if headers = VNone then VDict HEADERS else headers);
               encoding = (case encoding of
                             VStr enc \<Rightarrow> VTuple [encoding]
                           | VList encs \<Rightarrow> VTuple encs
                           | _ \<Rightarrow> encoding)
           in case setattrs self
                     [(''logger'', VLogger ''pyasst.spider''),
                      (''session'', VSession s),
                      (''methods'', VDict (map (\<lambda>(k, b). (k, VBound b)) (bound_methods s))),
                      (''headers'', headers),
                      (''encodes'', encoding),
                      (''retry'', VInt retry)] of
                Inl x \<Rightarrow> Inl x
              | Inr self \<Rightarrow>
                  (case (case delay of
                           Some d \<Rightarrow> Inr (VDelay d)
                         | None \<Rightarrow>
                             (case getattr_FalseDelay self of
                                Inl x \<Rightarrow> Inl x
                              | Inr f \<Rightarrow> call0 f)) of
                     Inl x \<Rightarrow> Inl x
                   | Inr delay \<Rightarrow> setattr self ''delay'' delay)))"

text \<open>
  The attributes \<^verbatim>\<open>request\<close> and \<^verbatim>\<open>download\<close> read, with the types \<^verbatim>\<open>__init__\<close> gives
  them. The \<^verbatim>\<open>Delay\<close> object is mutable: the functions return the handler with the
  delay as the call left it.
\<close>

record handler =
  methods :: "(string \<times> bound) list"
  headers :: pyval
  retry :: int
  delay :: delay

text \<open>The typed view of an instance of \<^verbatim>\<open>RequestHandler\<close> that \<^verbatim>\<open>request\<close> works on.\<close>

fun bounds_of :: "dict \<Rightarrow> (string \<times> bound) list option" where
  "bounds_of [] = Some []"
| "bounds_of ((k, VBound b) # kvs) = map_option (\<lambda>bs. (k, b) # bs) (bounds_of kvs)"
| "bounds_of (_ # kvs) = None"

definition handler_of :: "pyobj \<Rightarrow> handler option" where
  "handler_of self =
     (case (ob_type self, map_of (ob_dict self) ''methods'', map_of (ob_dict self) ''headers'',
            map_of (ob_dict self) ''retry'', map_of (ob_dict self) ''delay'') of
        (RequestHandler, Some (VDict ms), Some h, Some (VInt r), Some (VDelay d)) \<Rightarrow>
          map_option (\<lambda>bs. \<lparr>methods = bs, headers = h, retry = r, delay = d\<rparr>) (bounds_of ms)
      | _ \<Rightarrow> None)"

text \<open>
  The loop of lines 104 to 116, from the values of \<^verbatim>\<open>retry_count\<close> and \<^verbatim>\<open>res\<close> at the
  loop head. An exception of the delay or of the transport leaves the loop at once.
  After the loop \<^verbatim>\<open>res.status_code\<close> is read: with \<^verbatim>\<open>res = None\<close> (no iteration ran) that
  is an \<^verbatim>\<open>AttributeError\<close>.
\<close>

function request_loop ::
  "env \<Rightarrow> bound \<Rightarrow> string \<Rightarrow> dict \<Rightarrow> int \<Rightarrow> int \<Rightarrow> response option \<Rightarrow> delay \<Rightarrow> trace
     \<Rightarrow> (exn + response) \<times> delay \<times> trace" where
  "request_loop e m url kwargs max_retry retry_count res d tr =
     (if retry_count < max_retry then
        (case action e d tr of
           (Inl x, d', tr') \<Rightarrow> (Inl x, d', tr')
         | (Inr _, d', tr') \<Rightarrow>
             (let rq = \<lparr>callee = m, req_url = url, req_kwargs = kwargs\<rparr> in
              case transport e (sends tr') rq of
                Inl x \<Rightarrow> (Inl x, d', tr' @ [Send rq])
              | Inr r \<Rightarrow>
                  if status_code r \<noteq> 200
                  then request_loop e m url kwargs max_retry (retry_count + 1) (Some r) d'
                         (tr' @ [Send rq])
                  else (Inr r, d', tr' @ [Send rq])))
      else
        (case res of
           None \<Rightarrow> (Inl AttributeError, d, tr)
         | Some r \<Rightarrow> (Inl (RuntimeError (http_message (status_code r) url)), d, tr)))"
  by pat_completeness auto
termination
  by (relation "measure (\<lambda>(e, m, url, kwargs, max_retry, retry_count, res, d, tr).
                  nat (max_retry - retry_count))") auto

declare request_loop.simps [simp del]

text \<open>Lines 94 and 95: the default headers, unless the caller gave some.\<close>

definition with_headers :: "handler \<Rightarrow> dict \<Rightarrow> dict" where
  "with_headers self kwargs =
     (if ''headers'' \<notin> fst ` set kwargs then AList.update ''headers'' (headers self) kwargs
      else kwargs)"

text \<open>\<^verbatim>\<open>RequestHandler.request\<close>.\<close>

definition request ::
  "env \<Rightarrow> handler \<Rightarrow> trace \<Rightarrow> string \<Rightarrow> string \<Rightarrow> dict \<Rightarrow> (exn + response) \<times> handler \<times> trace" where
  "request e self tr url method kwargs =
     (if method = [] \<or> url = [] then (Inl (RuntimeError MSG_INCOMPLETE), self, tr)
      else
        (let method = str_lower e method in
         case map_of (methods self) method of
           None \<Rightarrow> (Inl (RuntimeError (MSG_UNKNOWN_METHOD @ method)), self, tr)
         | Some m \<Rightarrow>
             (case request_loop e m url (with_headers self kwargs) (retry self) 0 None
                     (delay self) tr of
                (r, d, tr') \<Rightarrow> (r, self\<lparr>delay := d\<rparr>, tr'))))"

text \<open>
  The loop of lines 161 to 166 over the chunks the response yields, from the value of
  \<^verbatim>\<open>download_length\<close> before the chunk.
\<close>

fun write_chunks :: "int \<Rightarrow> int \<Rightarrow> bytes list \<Rightarrow> trace \<Rightarrow> trace" where
  "write_chunks content_length download_length [] tr = tr"
| "write_chunks content_length download_length (chuck # chucks) tr =
     (let tr = (if chuck \<noteq> [] then tr @ [Write chuck] else tr);
          download_length = download_length + int (length chuck)
      in if download_length \<ge> content_length then tr
         else write_chunks content_length download_length chucks tr)"

text \<open>
  Lines 158 to 168, the body of the two \<^verbatim>\<open>with\<close> statements.
\<close>

definition download_body :: "env \<Rightarrow> response \<Rightarrow> trace \<Rightarrow> (exn + unit) \<times> trace" where
  "download_body e res tr =
     (case res_headers res ''Content-Length'' of
        Some v \<Rightarrow>
          (case py_int e v of
             Inl x \<Rightarrow> (Inl x, tr)
           | Inr content_length \<Rightarrow>
               (Inr (), write_chunks content_length 0 (iter_content res CHUCK_SIZE)
                          (tr @ [IterContent CHUCK_SIZE])))
      | None \<Rightarrow> (Inr (), tr @ [Write (content res)]))"

text \<open>
  \<^verbatim>\<open>RequestHandler.download\<close>. Both \<^verbatim>\<open>with\<close> statements close what they opened on every
  way out. A caller's own \<^verbatim>\<open>stream\<close> keyword collides with the one of line 157
  (\<^verbatim>\<open>TypeError\<close>).
\<close>

definition download ::
  "env \<Rightarrow> handler \<Rightarrow> trace \<Rightarrow> string \<Rightarrow> string \<Rightarrow> string \<Rightarrow> dict \<Rightarrow> (exn + unit) \<times> handler \<times> trace" where
  "download e self tr url save_path method kwargs =
     (let dirpath = fst (os_path_split e save_path);
          tr = tr @ [MakeDirs dirpath]
      in case make_if_doesnt_exist e dirpath of
           Some x \<Rightarrow> (Inl x, self, tr)
         | None \<Rightarrow>
             (let tr = tr @ [OpenWB save_path]
              in case open_wb e save_path of
                   Some x \<Rightarrow> (Inl x, self, tr)
                 | None \<Rightarrow>
                     if ''stream'' \<in> fst ` set kwargs then (Inl TypeError, self, tr @ [CloseFile])
                     else
                       (case request e self tr url method ((''stream'', VBool True) # kwargs) of
                          (Inl x, self', tr') \<Rightarrow> (Inl x, self', tr' @ [CloseFile])
                        | (Inr res, self', tr') \<Rightarrow>
                            (case download_body e res tr' of
                               (r, tr'') \<Rightarrow> (r, self', tr'' @ [CloseResponse, CloseFile])))))"

subsection \<open>Notions the statements use\<close>

text \<open>
  A delay whose activation cannot raise: the no-op one, or a \<^verbatim>\<open>Delay\<close> with a step other
  than 0 and a sleep time on which \<^verbatim>\<open>time.sleep\<close> does not raise.
\<close>

definition throttle_ok :: "env \<Rightarrow> delay \<Rightarrow> bool" where
  "throttle_ok e d =
     (case cls d of
        FalseDelay \<Rightarrow> True
      | Delay \<Rightarrow> step d \<noteq> 0 \<and> time_sleep e (sleep d) = None)"

text \<open>The delay object after \<open>n\<close> activations that did not raise.\<close>

definition activated :: "nat \<Rightarrow> delay \<Rightarrow> delay" where
  "activated n d =
     (case cls d of Delay \<Rightarrow> d\<lparr>counter := counter d + int n\<rparr> | FalseDelay \<Rightarrow> d)"

text \<open>The transport answers the call with a response whose status is not 200.\<close>

definition refused :: "exn + response \<Rightarrow> bool" where
  "refused a = (case a of Inl x \<Rightarrow> False | Inr r \<Rightarrow> status_code r \<noteq> 200)"

text \<open>The transport call a dispatch issues on every attempt.\<close>

definition the_call :: "handler \<Rightarrow> bound \<Rightarrow> string \<Rightarrow> dict \<Rightarrow> request" where
  "the_call self m url kwargs = \<lparr>callee = m, req_url = url, req_kwargs = with_headers self kwargs\<rparr>"

text \<open>The number of bytes in the first \<open>j\<close> chunks.\<close>

definition read_length :: "bytes list \<Rightarrow> nat \<Rightarrow> int" where
  "read_length chucks j = int (sum_list (map length (take j chucks)))"

subsection \<open>A world for the examples\<close>

text \<open>
  An instance of the parameters, for evaluating the functions on concrete calls:
  \<^verbatim>\<open>time.sleep\<close> with the bounds of CPython on a 64-bit platform (the time in nanoseconds
  fits 63 bits), \<^verbatim>\<open>str.lower\<close> on ASCII text, \<^verbatim>\<open>int\<close> on a string of decimal digits, a file system where
  every path splits into \<^verbatim>\<open>/tmp\<close> and a file name and nothing fails, and a transport
  given as a function.
\<close>

definition ascii_lower :: "string \<Rightarrow> string" where
  "ascii_lower s =
     map (\<lambda>c. case map_of (zip ''ABCDEFGHIJKLMNOPQRSTUVWXYZ'' ''abcdefghijklmnopqrstuvwxyz'') c of
               Some l \<Rightarrow> l
             | None \<Rightarrow> c) s"

definition int_of_digits :: "string \<Rightarrow> exn + int" where
  "int_of_digits s =
     (if s \<noteq> [] \<and> list_all (\<lambda>c. 48 \<le> (of_char c :: nat) \<and> (of_char c :: nat) \<le> 57) s
      then Inr (foldl (\<lambda>a c. 10 * a + (of_char c - 48)) 0 s)
      else Inl ValueError)"

definition example_env :: "(nat \<Rightarrow> request \<Rightarrow> exn + response) \<Rightarrow> env" where
  "example_env t =
     \<lparr>time_sleep = (\<lambda>secs. if secs < 0 then Some ValueError
                           else if 9223372036854775807 / 1000000000 < secs then Some OverflowError
                           else None),
      str_lower = ascii_lower, transport = t, py_int = int_of_digits,
      os_path_split = (\<lambda>p. (''/tmp'', drop 5 p)),
      make_if_doesnt_exist = (\<lambda>p. None), open_wb = (\<lambda>p. None)\<rparr>"

text \<open>A response with a status and nothing else.\<close>

definition status_only :: "int \<Rightarrow> response" where
  "status_only code =
     \<lparr>status_code = code, res_headers = Map.empty, content = [], iter_content = (\<lambda>n. [])\<rparr>"

text \<open>A response with status 200, the given headers, and a body that arrives in the given chunks.\<close>

definition chunked :: "(string \<rightharpoonup> string) \<Rightarrow> bytes list \<Rightarrow> response" where
  "chunked hs cs =
     \<lparr>status_code = 200, res_headers = hs, content = concat cs, iter_content = (\<lambda>n. cs)\<rparr>"

text \<open>
  The handler \<^verbatim>\<open>RequestHandler(retry=r, delay=d)\<close> builds (\<open>init_example_handler\<close> below);
  with no \<^verbatim>\<open>delay\<close> argument, \<open>d\<close> is \<open>FalseDelay_init\<close>.
\<close>

definition example_handler :: "int \<Rightarrow> delay \<Rightarrow> handler" where
  "example_handler r d =
     \<lparr>methods = bound_methods Session, headers = VDict HEADERS, retry = r, delay = d\<rparr>"

section \<open>Properties\<close>

subsection \<open>The delay\<close>

text \<open>
  From a counter between 0 and the step, activations that do not take the counter past
  the step all succeed, and the only pause is the one of the activation that reaches
  the step.
\<close>

lemma activations_upto_step:
  assumes "0 \<le> counter d" and "counter d + int n \<le> step d"
    and "time_sleep e (sleep d) = None"
  shows "activations e n d tr =
    (Inr (), d\<lparr>counter := counter d + int n\<rparr>,
     if 0 < n \<and> counter d + int n = step d then tr @ [Sleep (sleep d)] else tr)"
  using assms
proof (induction n arbitrary: d tr)
  case 0
  then show ?case by simp
next
  case (Suc n)
  let ?d1 = "d\<lparr>counter := counter d + 1\<rparr>"
  have nz: "step d \<noteq> 0" using Suc.prems by linarith
  show ?case
  proof (cases "counter d + 1 = step d")
    case True
    then have n0: "n = 0" using Suc.prems by linarith
    have "Delay_action e d tr = (Inr (), ?d1, tr @ [Sleep (sleep d)])"
      using True nz Suc.prems by (simp add: Delay_action_def Let_def)
    then show ?thesis using n0 True by simp
  next
    case False
    then have lt: "counter d + 1 < step d" using Suc.prems by linarith
    then have "(counter d + 1) mod step d = counter d + 1" using Suc.prems by simp
    then have act: "Delay_action e d tr = (Inr (), ?d1, tr)"
      using nz Suc.prems by (simp add: Delay_action_def Let_def)
    have "activations e n ?d1 tr =
      (Inr (), ?d1\<lparr>counter := counter ?d1 + int n\<rparr>,
       if 0 < n \<and> counter ?d1 + int n = step ?d1 then tr @ [Sleep (sleep ?d1)] else tr)"
      using Suc.prems by (intro Suc.IH) simp_all
    then show ?thesis using act False by (auto simp: algebra_simps)
  qed
qed

text \<open>
  C5. For a \<^verbatim>\<open>Delay\<close> with step \<open>N \<ge> 1\<close> and a sleep time \<open>s\<close> on which \<^verbatim>\<open>time.sleep\<close> does
  not raise: every activation succeeds, adds exactly 1 to the counter, and calls
  \<^verbatim>\<open>time.sleep(s)\<close> if and only if the new counter is a multiple of \<open>N\<close>. From counter 0,
  any \<open>n \<le> N\<close> activations leave the counter at \<open>n\<close>, and the trace has gained a pause
  exactly when \<open>n = N\<close>: the first \<open>N - 1\<close> activations do not pause, the \<open>N\<close>th does, once.
\<close>

theorem Delay_pauses_every_step:
  assumes "1 \<le> N" and "time_sleep e s = None" and "step d = N" and "sleep d = s"
  shows "Delay_action e d tr =
      (Inr (), d\<lparr>counter := counter d + 1\<rparr>,
       if (counter d + 1) mod N = 0 then tr @ [Sleep s] else tr)
    \<and> (\<forall>n. n \<le> nat N \<longrightarrow>
          activations e n (d\<lparr>counter := 0\<rparr>) tr =
            (Inr (), d\<lparr>counter := int n\<rparr>, if n = nat N then tr @ [Sleep s] else tr))"
proof (intro conjI allI impI)
  show "Delay_action e d tr =
      (Inr (), d\<lparr>counter := counter d + 1\<rparr>,
       if (counter d + 1) mod N = 0 then tr @ [Sleep s] else tr)"
    using assms by (simp add: Delay_action_def Let_def)
next
  fix n assume n: "n \<le> nat N"
  let ?d0 = "d\<lparr>counter := 0\<rparr>"
  have "activations e n ?d0 tr =
    (Inr (), ?d0\<lparr>counter := counter ?d0 + int n\<rparr>,
     if 0 < n \<and> counter ?d0 + int n = step ?d0 then tr @ [Sleep (sleep ?d0)] else tr)"
    using assms n by (intro activations_upto_step) simp_all
  moreover have "(0 < n \<and> int n = N) = (n = nat N)" using assms(1) by auto
  ultimately show "activations e n ?d0 tr =
      (Inr (), d\<lparr>counter := int n\<rparr>, if n = nat N then tr @ [Sleep s] else tr)"
    using assms by simp
qed

text \<open>
  With step 3 and a sleep time of 2 seconds: the activation that takes the counter
  from 5 to 6 pauses, the one from 6 to 7 does not; from 0, two activations do not
  pause and three pause once.
\<close>

theorem Delay_pauses_every_step_witness:
  "(1::int) \<le> 3 \<and> time_sleep (example_env (\<lambda>n rq. Inl ConnectionError)) 2 = None
   \<and> Delay_action (example_env (\<lambda>n rq. Inl ConnectionError)) (Delay_init 3 2\<lparr>counter := 5\<rparr>) []
       = (Inr (), Delay_init 3 2\<lparr>counter := 6\<rparr>, [Sleep 2])
   \<and> Delay_action (example_env (\<lambda>n rq. Inl ConnectionError)) (Delay_init 3 2\<lparr>counter := 6\<rparr>) []
       = (Inr (), Delay_init 3 2\<lparr>counter := 7\<rparr>, [])
   \<and> activations (example_env (\<lambda>n rq. Inl ConnectionError)) 2 (Delay_init 3 2) []
       = (Inr (), Delay_init 3 2\<lparr>counter := 2\<rparr>, [])
   \<and> activations (example_env (\<lambda>n rq. Inl ConnectionError)) 3 (Delay_init 3 2) []
       = (Inr (), Delay_init 3 2\<lparr>counter := 3\<rparr>, [Sleep 2])"
proof -
  let ?e = "example_env (\<lambda>n rq. Inl ConnectionError)"
  have h: "(1::int) \<le> 3" "time_sleep ?e 2 = None"
    "step (Delay_init 3 2) = 3" "sleep (Delay_init 3 2) = 2"
    by (simp_all add: Delay_init_def example_env_def)
  note t = Delay_pauses_every_step [OF h(1) h(2)]
  have a: "Delay_action ?e (Delay_init 3 2\<lparr>counter := 5\<rparr>) []
      = (Inr (), Delay_init 3 2\<lparr>counter := 6\<rparr>, [Sleep 2])"
    using t [of "Delay_init 3 2\<lparr>counter := 5\<rparr>" "[]"] by (simp add: Delay_init_def)
  have b: "Delay_action ?e (Delay_init 3 2\<lparr>counter := 6\<rparr>) []
      = (Inr (), Delay_init 3 2\<lparr>counter := 7\<rparr>, [])"
    using t [of "Delay_init 3 2\<lparr>counter := 6\<rparr>" "[]"] by (simp add: Delay_init_def)
  have c: "activations ?e 2 (Delay_init 3 2) [] = (Inr (), Delay_init 3 2\<lparr>counter := 2\<rparr>, [])"
    using t [of "Delay_init 3 2" "[]"] by (auto simp add: Delay_init_def dest: spec[of _ 2])
  have d: "activations ?e 3 (Delay_init 3 2) []
      = (Inr (), Delay_init 3 2\<lparr>counter := 3\<rparr>, [Sleep 2])"
    using t [of "Delay_init 3 2" "[]"] by (auto simp add: Delay_init_def dest: spec[of _ 3])
  show ?thesis using h a b c d by simp
qed

subsection \<open>The retry loop\<close>

lemma sent_append: "sent (a @ b) = sent a @ sent b"
  by (induction a rule: sent.induct) simp_all

lemma pauses_append: "pauses (a @ b) = pauses a @ pauses b"
  by (induction a rule: pauses.induct) simp_all

lemma written_append: "written (a @ b) = written a @ written b"
  by (induction a rule: written.induct) simp_all

lemma sends_append: "sends (a @ b) = sends a + sends b"
  by (simp add: sends_def sent_append)

lemma activated_0: "activated 0 d = d"
  by (simp add: activated_def split: delay_class.splits)

lemma activated_Suc: "activated n (activated (Suc 0) d) = activated (Suc n) d"
  by (simp add: activated_def split: delay_class.splits)

lemma throttle_ok_activated: "throttle_ok e (activated n d) = throttle_ok e d"
  by (simp add: activated_def throttle_ok_def split: delay_class.splits)

text \<open>An activation of a delay that cannot raise: the trace gains at most a pause.\<close>

lemma action_ok:
  assumes "throttle_ok e d"
  shows "\<exists>ps. action e d tr = (Inr (), activated (Suc 0) d, tr @ ps) \<and> sent ps = [] \<and> written ps = []"
proof (cases "cls d")
  case Delay
  then show ?thesis
    using assms
    by (simp add: action_def Delay_action_def activated_def throttle_ok_def Let_def)
next
  case FalseDelay
  then show ?thesis
    by (simp add: action_def FalseDelay_action_def activated_def)
qed

text \<open>One iteration whose response is not 200 goes back to the loop head.\<close>

lemma request_loop_retry:
  assumes "throttle_ok e d" and "c < R"
    and "transport e (sends tr) \<lparr>callee = m, req_url = url, req_kwargs = kw\<rparr> = Inr r"
    and "status_code r \<noteq> 200"
  shows "\<exists>tr'. request_loop e m url kw R c res d tr =
                request_loop e m url kw R (c + 1) (Some r) (activated (Suc 0) d) tr'
          \<and> sent tr' = sent tr @ [\<lparr>callee = m, req_url = url, req_kwargs = kw\<rparr>]
          \<and> written tr' = written tr"
proof -
  let ?rq = "\<lparr>callee = m, req_url = url, req_kwargs = kw\<rparr>"
  obtain ps where a: "action e d tr = (Inr (), activated (Suc 0) d, tr @ ps)"
    and ps: "sent ps = []" "written ps = []"
    using action_ok [OF assms(1)] by blast
  have s: "sends (tr @ ps) = sends tr" using ps by (simp add: sends_append) (simp add: sends_def)
  have "request_loop e m url kw R c res d tr =
        request_loop e m url kw R (c + 1) (Some r) (activated (Suc 0) d) ((tr @ ps) @ [Send ?rq])"
    using assms(2-4) a s by (subst request_loop.simps) simp
  moreover have "sent ((tr @ ps) @ [Send ?rq]) = sent tr @ [?rq]"
    using ps by (simp add: sent_append)
  moreover have "written ((tr @ ps) @ [Send ?rq]) = written tr"
    using ps by (simp add: written_append)
  ultimately show ?thesis by blast
qed

text \<open>\<open>n\<close> iterations in a row whose responses are not 200.\<close>

lemma request_loop_retries:
  assumes "throttle_ok e d" and "c + int n \<le> R"
    and "\<forall>i<n. refused (transport e (sends tr + i) \<lparr>callee = m, req_url = url, req_kwargs = kw\<rparr>)"
  shows "\<exists>tr'. request_loop e m url kw R c res d tr =
                request_loop e m url kw R (c + int n)
                  (if n = 0 then res
                   else Some (projr (transport e (sends tr + (n - 1))
                                \<lparr>callee = m, req_url = url, req_kwargs = kw\<rparr>)))
                  (activated n d) tr'
          \<and> sent tr' = sent tr @ replicate n \<lparr>callee = m, req_url = url, req_kwargs = kw\<rparr>
          \<and> written tr' = written tr"
  using assms
proof (induction n arbitrary: c res d tr)
  case 0
  have "request_loop e m url kw R c res d tr = request_loop e m url kw R c res d tr
      \<and> sent tr = sent tr \<and> written tr = written tr" by simp
  then show ?case by (simp add: activated_0) blast
next
  case (Suc n)
  let ?rq = "\<lparr>callee = m, req_url = url, req_kwargs = kw\<rparr>"
  from Suc.prems(3) have "refused (transport e (sends tr + 0) ?rq)" by blast
  then obtain r0 where r0: "transport e (sends tr) ?rq = Inr r0" "status_code r0 \<noteq> 200"
    by (auto simp: refused_def split: sum.splits)
  from Suc.prems(2) have lt: "c < R" by linarith
  obtain tr1 where one: "request_loop e m url kw R c res d tr =
        request_loop e m url kw R (c + 1) (Some r0) (activated (Suc 0) d) tr1"
    and tr1: "sent tr1 = sent tr @ [?rq]" "written tr1 = written tr"
    using request_loop_retry [OF Suc.prems(1) lt r0] by blast
  have s1: "sends tr1 = Suc (sends tr)" using tr1 by (simp add: sends_def)
  have rest: "\<forall>i<n. refused (transport e (sends tr1 + i) ?rq)"
    using Suc.prems(3) s1 by auto
  have ok1: "throttle_ok e (activated (Suc 0) d)"
    using Suc.prems(1) by (simp add: throttle_ok_activated)
  have le1: "(c + 1) + int n \<le> R" using Suc.prems(2) by simp
  obtain tr' where more: "request_loop e m url kw R (c + 1) (Some r0) (activated (Suc 0) d) tr1 =
        request_loop e m url kw R ((c + 1) + int n)
          (if n = 0 then Some r0 else Some (projr (transport e (sends tr1 + (n - 1)) ?rq)))
          (activated n (activated (Suc 0) d)) tr'"
    and tr': "sent tr' = sent tr1 @ replicate n ?rq" "written tr' = written tr1"
    using Suc.IH [OF ok1 le1 rest] by blast
  have res: "(if n = 0 then Some r0 else Some (projr (transport e (sends tr1 + (n - 1)) ?rq)))
      = Some (projr (transport e (sends tr + (Suc n - 1)) ?rq))"
    using r0 s1 by (cases n) simp_all
  have "request_loop e m url kw R c res d tr =
        request_loop e m url kw R (c + int (Suc n))
          (Some (projr (transport e (sends tr + (Suc n - 1)) ?rq))) (activated (Suc n) d) tr'"
    using one more res by (simp add: activated_Suc add.assoc)
  moreover have "sent tr' = sent tr @ replicate (Suc n) ?rq"
    using tr' tr1 by (simp add: replicate_app_Cons_same)
  moreover have "written tr' = written tr" using tr' tr1 by simp
  ultimately show ?case by auto
qed

text \<open>The three ways out of the loop.\<close>

lemma request_loop_exhausted:
  assumes "\<not> c < R"
  shows "request_loop e m url kw R c (Some r) d tr =
           (Inl (RuntimeError (http_message (status_code r) url)), d, tr)"
  using assms by (subst request_loop.simps) simp

lemma request_loop_success:
  assumes "throttle_ok e d" and "c < R"
    and "transport e (sends tr) \<lparr>callee = m, req_url = url, req_kwargs = kw\<rparr> = Inr r"
    and "status_code r = 200"
  shows "\<exists>tr'. request_loop e m url kw R c res d tr = (Inr r, activated (Suc 0) d, tr')
          \<and> sent tr' = sent tr @ [\<lparr>callee = m, req_url = url, req_kwargs = kw\<rparr>]
          \<and> written tr' = written tr"
proof -
  let ?rq = "\<lparr>callee = m, req_url = url, req_kwargs = kw\<rparr>"
  obtain ps where a: "action e d tr = (Inr (), activated (Suc 0) d, tr @ ps)"
    and ps: "sent ps = []" "written ps = []"
    using action_ok [OF assms(1)] by blast
  have s: "sends (tr @ ps) = sends tr" using ps by (simp add: sends_append) (simp add: sends_def)
  have "request_loop e m url kw R c res d tr =
        (Inr r, activated (Suc 0) d, (tr @ ps) @ [Send ?rq])"
    using assms(2-4) a s by (subst request_loop.simps) simp
  moreover have "sent ((tr @ ps) @ [Send ?rq]) = sent tr @ [?rq]"
    using ps by (simp add: sent_append)
  moreover have "written ((tr @ ps) @ [Send ?rq]) = written tr"
    using ps by (simp add: written_append)
  ultimately show ?thesis by blast
qed

lemma request_loop_raise:
  assumes "throttle_ok e d" and "c < R"
    and "transport e (sends tr) \<lparr>callee = m, req_url = url, req_kwargs = kw\<rparr> = Inl x"
  shows "\<exists>tr'. request_loop e m url kw R c res d tr = (Inl x, activated (Suc 0) d, tr')
          \<and> sent tr' = sent tr @ [\<lparr>callee = m, req_url = url, req_kwargs = kw\<rparr>]
          \<and> written tr' = written tr"
proof -
  let ?rq = "\<lparr>callee = m, req_url = url, req_kwargs = kw\<rparr>"
  obtain ps where a: "action e d tr = (Inr (), activated (Suc 0) d, tr @ ps)"
    and ps: "sent ps = []" "written ps = []"
    using action_ok [OF assms(1)] by blast
  have s: "sends (tr @ ps) = sends tr" using ps by (simp add: sends_append) (simp add: sends_def)
  have "request_loop e m url kw R c res d tr =
        (Inl x, activated (Suc 0) d, (tr @ ps) @ [Send ?rq])"
    using assms(2-3) a s by (subst request_loop.simps) simp
  moreover have "sent ((tr @ ps) @ [Send ?rq]) = sent tr @ [?rq]"
    using ps by (simp add: sent_append)
  moreover have "written ((tr @ ps) @ [Send ?rq]) = written tr"
    using ps by (simp add: written_append)
  ultimately show ?thesis by blast
qed

subsection \<open>Dispatch with valid arguments\<close>

lemma request_valid:
  assumes "url \<noteq> []" and "method \<noteq> []"
    and "map_of (methods self) (str_lower e method) = Some m"
  shows "request e self tr url method kwargs =
    (case request_loop e m url (with_headers self kwargs) (retry self) 0 None (delay self) tr of
       (r, d, tr') \<Rightarrow> (r, self\<lparr>delay := d\<rparr>, tr'))"
  using assms by (simp add: request_def Let_def)

text \<open>All \<open>R\<close> attempts are answered with a status other than 200.\<close>

lemma request_fails:
  assumes "url \<noteq> []" and "method \<noteq> []"
    and "map_of (methods self) (str_lower e method) = Some m"
    and "throttle_ok e (delay self)"
    and "retry self = int R" and "1 \<le> R"
    and "\<forall>i<R. refused (transport e (sends tr + i) (the_call self m url kwargs))"
  shows "\<exists>tr'. request e self tr url method kwargs =
      (Inl (RuntimeError (http_message
              (status_code (projr (transport e (sends tr + (R - 1)) (the_call self m url kwargs))))
              url)),
       self\<lparr>delay := activated R (delay self)\<rparr>, tr')
    \<and> sent tr' = sent tr @ replicate R (the_call self m url kwargs)
    \<and> written tr' = written tr"
proof -
  let ?kw = "with_headers self kwargs"
  let ?rq = "\<lparr>callee = m, req_url = url, req_kwargs = ?kw\<rparr>"
  have rq: "the_call self m url kwargs = ?rq" by (simp add: the_call_def)
  have "\<forall>i<R. refused (transport e (sends tr + i) ?rq)" using assms(7) rq by simp
  moreover have "0 + int R \<le> retry self" using assms(5) by simp
  ultimately obtain tr' where
    run: "request_loop e m url ?kw (retry self) 0 None (delay self) tr =
          request_loop e m url ?kw (retry self) (0 + int R)
            (if R = 0 then None else Some (projr (transport e (sends tr + (R - 1)) ?rq)))
            (activated R (delay self)) tr'"
    and tr': "sent tr' = sent tr @ replicate R ?rq" "written tr' = written tr"
    using request_loop_retries [OF assms(4), where c = 0 and n = R and R = "retry self" and tr = tr
        and m = m and url = url and kw = ?kw and res = None] by blast
  have "request_loop e m url ?kw (retry self) 0 None (delay self) tr =
      (Inl (RuntimeError (http_message
              (status_code (projr (transport e (sends tr + (R - 1)) ?rq))) url)),
       activated R (delay self), tr')"
    using run assms(5,6) by (simp add: request_loop_exhausted)
  then show ?thesis
    using tr' rq by (simp add: request_valid [OF assms(1-3)])
qed

text \<open>The first \<open>k\<close> attempts are answered with a status other than 200, the next with 200.\<close>

lemma request_succeeds:
  assumes "url \<noteq> []" and "method \<noteq> []"
    and "map_of (methods self) (str_lower e method) = Some m"
    and "throttle_ok e (delay self)"
    and "int k < retry self"
    and "\<forall>i<k. refused (transport e (sends tr + i) (the_call self m url kwargs))"
    and "transport e (sends tr + k) (the_call self m url kwargs) = Inr r"
    and "status_code r = 200"
  shows "\<exists>tr'. request e self tr url method kwargs =
      (Inr r, self\<lparr>delay := activated (Suc k) (delay self)\<rparr>, tr')
    \<and> sent tr' = sent tr @ replicate (Suc k) (the_call self m url kwargs)
    \<and> written tr' = written tr"
proof -
  let ?kw = "with_headers self kwargs"
  let ?rq = "\<lparr>callee = m, req_url = url, req_kwargs = ?kw\<rparr>"
  let ?res = "if k = 0 then None else Some (projr (transport e (sends tr + (k - 1)) ?rq))"
  have rq: "the_call self m url kwargs = ?rq" by (simp add: the_call_def)
  have "\<forall>i<k. refused (transport e (sends tr + i) ?rq)" using assms(6) rq by simp
  moreover have "0 + int k \<le> retry self" using assms(5) by simp
  ultimately obtain tr1 where
    run: "request_loop e m url ?kw (retry self) 0 None (delay self) tr =
          request_loop e m url ?kw (retry self) (0 + int k) ?res (activated k (delay self)) tr1"
    and tr1: "sent tr1 = sent tr @ replicate k ?rq" "written tr1 = written tr"
    using request_loop_retries [OF assms(4), where c = 0 and n = k and R = "retry self" and tr = tr
        and m = m and url = url and kw = ?kw and res = None] by blast
  have s1: "sends tr1 = sends tr + k" using tr1 by (simp add: sends_def)
  have ok: "throttle_ok e (activated k (delay self))"
    using assms(4) by (simp add: throttle_ok_activated)
  have lt: "0 + int k < retry self" using assms(5) by simp
  have t: "transport e (sends tr1) ?rq = Inr r" using assms(7) rq s1 by simp
  obtain tr' where
    fin: "request_loop e m url ?kw (retry self) (0 + int k) ?res (activated k (delay self)) tr1 =
          (Inr r, activated (Suc 0) (activated k (delay self)), tr')"
    and tr': "sent tr' = sent tr1 @ [?rq]" "written tr' = written tr1"
    using request_loop_success [OF ok lt t assms(8), of ?res] by blast
  have a: "activated (Suc 0) (activated k (delay self)) = activated (Suc k) (delay self)"
    by (simp add: activated_def split: delay_class.splits)
  have "request_loop e m url ?kw (retry self) 0 None (delay self) tr =
      (Inr r, activated (Suc k) (delay self), tr')"
    using run fin a by simp
  moreover have "sent tr' = sent tr @ replicate (Suc k) ?rq"
    using tr' tr1 by (simp add: replicate_append_same)
  moreover have "written tr' = written tr" using tr' tr1 by simp
  ultimately show ?thesis
    using rq by (simp add: request_valid [OF assms(1-3)])
qed

text \<open>The first \<open>k\<close> attempts are answered with a status other than 200, the next raises.\<close>

lemma request_raises:
  assumes "url \<noteq> []" and "method \<noteq> []"
    and "map_of (methods self) (str_lower e method) = Some m"
    and "throttle_ok e (delay self)"
    and "int k < retry self"
    and "\<forall>i<k. refused (transport e (sends tr + i) (the_call self m url kwargs))"
    and "transport e (sends tr + k) (the_call self m url kwargs) = Inl x"
  shows "\<exists>tr'. request e self tr url method kwargs =
      (Inl x, self\<lparr>delay := activated (Suc k) (delay self)\<rparr>, tr')
    \<and> sent tr' = sent tr @ replicate (Suc k) (the_call self m url kwargs)
    \<and> written tr' = written tr"
proof -
  let ?kw = "with_headers self kwargs"
  let ?rq = "\<lparr>callee = m, req_url = url, req_kwargs = ?kw\<rparr>"
  let ?res = "if k = 0 then None else Some (projr (transport e (sends tr + (k - 1)) ?rq))"
  have rq: "the_call self m url kwargs = ?rq" by (simp add: the_call_def)
  have "\<forall>i<k. refused (transport e (sends tr + i) ?rq)" using assms(6) rq by simp
  moreover have "0 + int k \<le> retry self" using assms(5) by simp
  ultimately obtain tr1 where
    run: "request_loop e m url ?kw (retry self) 0 None (delay self) tr =
          request_loop e m url ?kw (retry self) (0 + int k) ?res (activated k (delay self)) tr1"
    and tr1: "sent tr1 = sent tr @ replicate k ?rq" "written tr1 = written tr"
    using request_loop_retries [OF assms(4), where c = 0 and n = k and R = "retry self" and tr = tr
        and m = m and url = url and kw = ?kw and res = None] by blast
  have s1: "sends tr1 = sends tr + k" using tr1 by (simp add: sends_def)
  have ok: "throttle_ok e (activated k (delay self))"
    using assms(4) by (simp add: throttle_ok_activated)
  have lt: "0 + int k < retry self" using assms(5) by simp
  have t: "transport e (sends tr1) ?rq = Inl x" using assms(7) rq s1 by simp
  obtain tr' where
    fin: "request_loop e m url ?kw (retry self) (0 + int k) ?res (activated k (delay self)) tr1 =
          (Inl x, activated (Suc 0) (activated k (delay self)), tr')"
    and tr': "sent tr' = sent tr1 @ [?rq]" "written tr' = written tr1"
    using request_loop_raise [OF ok lt t, of ?res] by blast
  have a: "activated (Suc 0) (activated k (delay self)) = activated (Suc k) (delay self)"
    by (simp add: activated_def split: delay_class.splits)
  have "request_loop e m url ?kw (retry self) 0 None (delay self) tr =
      (Inl x, activated (Suc k) (delay self), tr')"
    using run fin a by simp
  moreover have "sent tr' = sent tr @ replicate (Suc k) ?rq"
    using tr' tr1 by (simp add: replicate_append_same)
  moreover have "written tr' = written tr" using tr' tr1 by simp
  ultimately show ?thesis
    using rq by (simp add: request_valid [OF assms(1-3)])
qed

subsection \<open>The message of the HTTP error\<close>

text \<open>
  The message of line 116 holds the status code and the URL: the two can be read back
  from it. The digits of the code end at the first byte of the second literal part.
\<close>

lemma decimal_nonempty: "decimal n \<noteq> []"
  by (subst decimal.simps) simp

lemma decimal_digits: "set (decimal n) \<subseteq> set ''0123456789''"
proof (induction n rule: decimal.induct)
  case (1 n)
  have d: "''0123456789'' ! k \<in> set ''0123456789''" if "k < 10" for k
    using that by (intro nth_mem) simp
  show ?case
  proof (cases "n < 10")
    case True
    then show ?thesis using d [of n] by (subst decimal.simps) (simp del: decimal.simps)
  next
    case False
    have "n mod 10 < 10" by simp
    then show ?thesis
      using False "1.IH" d [of "n mod 10"]
      by (subst decimal.simps) (simp del: decimal.simps)
  qed
qed

lemma digit_inj:
  assumes "i < 10" and "j < 10" and "''0123456789'' ! i = ''0123456789'' ! j"
  shows "i = j"
proof -
  have "distinct ''0123456789''" by simp
  moreover have "i < length ''0123456789''" "j < length ''0123456789''" using assms by simp_all
  ultimately show ?thesis using assms(3) by (simp only: nth_eq_iff_index_eq)
qed

lemma decimal_inj: "decimal n = decimal m \<Longrightarrow> n = m"
proof (induction n arbitrary: m rule: decimal.induct)
  case (1 n)
  show ?case
  proof (cases "n < 10")
    case n: True
    show ?thesis
    proof (cases "m < 10")
      case True
      with n "1.prems" have "''0123456789'' ! n = ''0123456789'' ! m"
        by (subst (asm) decimal.simps, subst (asm) (2) decimal.simps) simp
      with n True show ?thesis by (rule digit_inj)
    next
      case False
      have "length (decimal m) = Suc (length (decimal (m div 10)))"
        using False by (subst decimal.simps) simp
      moreover have "length (decimal n) = 1" using n by (subst decimal.simps) simp
      ultimately show ?thesis using "1.prems" decimal_nonempty [of "m div 10"] by simp
    qed
  next
    case n: False
    show ?thesis
    proof (cases "m < 10")
      case True
      have "length (decimal n) = Suc (length (decimal (n div 10)))"
        using n by (subst decimal.simps) simp
      moreover have "length (decimal m) = 1" using True by (subst decimal.simps) simp
      ultimately show ?thesis using "1.prems" decimal_nonempty [of "n div 10"] by simp
    next
      case False
      have "decimal n = decimal (n div 10) @ [''0123456789'' ! (n mod 10)]"
        using n by (subst decimal.simps) simp
      moreover have "decimal m = decimal (m div 10) @ [''0123456789'' ! (m mod 10)]"
        using False by (subst decimal.simps) simp
      ultimately have e: "decimal (n div 10) = decimal (m div 10)"
        and l: "''0123456789'' ! (n mod 10) = ''0123456789'' ! (m mod 10)"
        using "1.prems" by simp_all
      have "n div 10 = m div 10" using "1.IH" [OF n e] .
      moreover have "n mod 10 = m mod 10" by (rule digit_inj [OF _ _ l]) simp_all
      ultimately show ?thesis by (metis div_mult_mod_eq)
    qed
  qed
qed

lemma format_d_chars: "set (format_d i) \<subseteq> set ''-0123456789''"
proof -
  have sub: "set (decimal n) \<subseteq> set ''-0123456789''" for n
    using decimal_digits [of n] set_subset_Cons [of "''0123456789''" "CHR ''-''"]
    by (rule subset_trans)
  show ?thesis
  proof (cases "i < 0")
    case True
    then have "format_d i = CHR ''-'' # decimal (nat (- i))" by (simp add: format_d_def)
    moreover have "CHR ''-'' \<in> set ''-0123456789''" by simp
    ultimately show ?thesis using sub [of "nat (- i)"] by (simp only: set_simps insert_subset)
  next
    case False
    then have "format_d i = decimal (nat i)" by (simp add: format_d_def)
    then show ?thesis using sub [of "nat i"] by (simp only:)
  qed
qed

lemma format_d_inj: "format_d i = format_d j \<Longrightarrow> i = j"
proof -
  assume eq: "format_d i = format_d j"
  have nominus: "decimal n \<noteq> CHR ''-'' # r" for n r
  proof
    assume "decimal n = CHR ''-'' # r"
    then have "CHR ''-'' \<in> set (decimal n)" by simp
    then have "CHR ''-'' \<in> set ''0123456789''" using decimal_digits [of n] by (rule subsetD [rotated])
    then show False by simp
  qed
  show ?thesis
  proof (cases "i < 0")
    case i: True
    show ?thesis
    proof (cases "j < 0")
      case True
      with i eq have "decimal (nat (- i)) = decimal (nat (- j))" by (simp add: format_d_def)
      then have "nat (- i) = nat (- j)" by (rule decimal_inj)
      with i True show ?thesis by simp
    next
      case False
      with i eq nominus [of "nat j" "decimal (nat (- i))"] show ?thesis
        by (simp add: format_d_def)
    qed
  next
    case i: False
    show ?thesis
    proof (cases "j < 0")
      case True
      with i eq nominus [of "nat i" "decimal (nat (- j))"] show ?thesis
        by (simp add: format_d_def)
    next
      case False
      with i eq have "decimal (nat i) = decimal (nat j)" by (simp add: format_d_def)
      then have "nat i = nat j" by (rule decimal_inj)
      with i False show ?thesis by simp
    qed
  qed
qed

lemma split_at_first_other:
  assumes "xs @ y # ys = xs' @ y' # ys'"
    and "\<forall>x\<in>set xs. P x" and "\<forall>x\<in>set xs'. P x" and "\<not> P y" and "\<not> P y'"
  shows "xs = xs' \<and> y # ys = y' # ys'"
proof -
  have "takeWhile P (xs @ y # ys) = xs" using assms(2,4) by (simp add: takeWhile_tail)
  moreover have "takeWhile P (xs' @ y' # ys') = xs'" using assms(3,5) by (simp add: takeWhile_tail)
  ultimately have "xs = xs'" using assms(1) by simp
  with assms(1) show ?thesis by simp
qed

lemma http_message_inj:
  assumes "http_message code url = http_message code' url'"
  shows "code = code' \<and> url = url'"
proof -
  let ?P = "\<lambda>c. c \<in> set ''-0123456789''"
  obtain y r where u: "MSG_HTTP_URL = y # r" and y: "\<not> ?P y"
    by (simp add: MSG_HTTP_URL_def)
  from assms have "format_d code @ y # (r @ url) = format_d code' @ y # (r @ url')"
    by (simp add: http_message_def u)
  moreover have "\<forall>x\<in>set (format_d code). ?P x" "\<forall>x\<in>set (format_d code'). ?P x"
    using format_d_chars by blast+
  ultimately have "format_d code = format_d code' \<and> y # (r @ url) = y # (r @ url')"
    using y by (intro split_at_first_other) auto
  then show ?thesis using format_d_inj by auto
qed

subsection \<open>The outcomes of a valid dispatch\<close>

lemma init_example_handler:
  "map_sum id handler_of (init True VNone enc r d []) =
     Inr (Some (example_handler r (case d of None \<Rightarrow> FalseDelay_init | Some d' \<Rightarrow> d')))"
  by (simp add: example_handler_def handler_of_def init_def setattr_def getattr_FalseDelay_def
      bound_methods_def split: option.splits)

text \<open>
  C1. A dispatch with valid arguments and a working delay, on a handler with retry limit
  \<open>R \<ge> 1\<close>, whose \<open>R\<close> transport calls are all answered with a status other than 200:
  it raises the \<^verbatim>\<open>RuntimeError\<close> of line 116, and the calls it has sent are exactly \<open>R\<close> calls
  of the bound verb with the URL and the keywords. The message of the error is the
  format string filled with the decimal status code of the last response and with the
  URL, and it carries both: no other status code and no other URL gives this message.
\<close>

theorem request_exhausts_retries:
  assumes "url \<noteq> []" and "method \<noteq> []"
    and "map_of (methods self) (str_lower e method) = Some m"
    and "throttle_ok e (delay self)"
    and "retry self = int R" and "1 \<le> R"
    and "\<forall>i<R. refused (transport e (sends tr + i) (the_call self m url kwargs))"
    and "transport e (sends tr + (R - 1)) (the_call self m url kwargs) = Inr r_last"
  shows "case request e self tr url method kwargs of
           (out, self', tr') \<Rightarrow>
              out = Inl (RuntimeError (http_message (status_code r_last) url))
            \<and> http_message (status_code r_last) url
                = MSG_HTTP_STATUS @ format_d (status_code r_last) @ MSG_HTTP_URL @ url
            \<and> (\<forall>code' url'. http_message code' url' = http_message (status_code r_last) url
                   \<longrightarrow> code' = status_code r_last \<and> url' = url)
            \<and> sent tr' = sent tr @ replicate R (the_call self m url kwargs)"
proof -
  have "\<forall>code' url'. http_message code' url' = http_message (status_code r_last) url
          \<longrightarrow> code' = status_code r_last \<and> url' = url"
    using http_message_inj by blast
  moreover have "http_message (status_code r_last) url
      = MSG_HTTP_STATUS @ format_d (status_code r_last) @ MSG_HTTP_URL @ url"
    by (simp add: http_message_def)
  ultimately show ?thesis
    using request_fails [OF assms(1-7)] assms(8) by auto
qed

text \<open>
  \<^verbatim>\<open>RequestHandler(retry=3, delay=Delay(2, 1)).request('http://h/', 'GET')\<close> with a
  transport answering 500, 501, 502: three calls, a pause before the second, and the
  message names 502.
\<close>

theorem request_exhausts_retries_witness:
  "request (example_env (\<lambda>n rq. Inr (status_only (500 + int n))))
      (example_handler 3 (Delay_init 2 1)) [] ''http://h/'' ''GET'' []
    = (Inl (RuntimeError (http_message 502 ''http://h/'')),
       example_handler 3 ((Delay_init 2 1)\<lparr>counter := 3\<rparr>),
       [Send \<lparr>callee = Bound Session ''get'', req_url = ''http://h/'',
              req_kwargs = [(''headers'', VDict HEADERS)]\<rparr>,
        Sleep 1,
        Send \<lparr>callee = Bound Session ''get'', req_url = ''http://h/'',
              req_kwargs = [(''headers'', VDict HEADERS)]\<rparr>,
        Send \<lparr>callee = Bound Session ''get'', req_url = ''http://h/'',
              req_kwargs = [(''headers'', VDict HEADERS)]\<rparr>])
   \<and> http_message 502 ''http://h/'' = MSG_HTTP_STATUS @ ''502'' @ MSG_HTTP_URL @ ''http://h/''"
proof -
  let ?e = "example_env (\<lambda>n rq. Inr (status_only (500 + int n)))"
  let ?h = "example_handler 3 (Delay_init 2 1)"
  let ?m = "Bound Session ''get''"
  have h: "''http://h/'' \<noteq> []" "''GET'' \<noteq> []"
    "map_of (methods ?h) (str_lower ?e ''GET'') = Some ?m"
    "throttle_ok ?e (delay ?h)"
    "retry ?h = int 3" "1 \<le> (3::nat)"
    "\<forall>i<3. refused (transport ?e (sends [] + i) (the_call ?h ?m ''http://h/'' []))"
    "transport ?e (sends [] + (3 - 1)) (the_call ?h ?m ''http://h/'' []) = Inr (status_only 502)"
    by (simp_all add: example_handler_def example_env_def ascii_lower_def bound_methods_def
        throttle_ok_def Delay_init_def refused_def status_only_def sends_def)
  note t = request_exhausts_retries [OF h]
  moreover have "request ?e ?h [] ''http://h/'' ''GET'' []
    = (Inl (RuntimeError (http_message 502 ''http://h/'')),
       example_handler 3 ((Delay_init 2 1)\<lparr>counter := 3\<rparr>),
       [Send \<lparr>callee = Bound Session ''get'', req_url = ''http://h/'',
              req_kwargs = [(''headers'', VDict HEADERS)]\<rparr>,
        Sleep 1,
        Send \<lparr>callee = Bound Session ''get'', req_url = ''http://h/'',
              req_kwargs = [(''headers'', VDict HEADERS)]\<rparr>,
        Send \<lparr>callee = Bound Session ''get'', req_url = ''http://h/'',
              req_kwargs = [(''headers'', VDict HEADERS)]\<rparr>])"
    by (simp add: example_handler_def request_def example_env_def ascii_lower_def
        bound_methods_def with_headers_def request_loop.simps action_def Delay_action_def
        Delay_init_def sends_def status_only_def Let_def)
  moreover have "http_message 502 ''http://h/''
      = MSG_HTTP_STATUS @ ''502'' @ MSG_HTTP_URL @ ''http://h/''"
    by (simp add: http_message_def format_d_def decimal.simps)
  ultimately show ?thesis by simp
qed

text \<open>
  C2. A dispatch with valid arguments and a working delay, on a handler with retry limit
  \<open>R\<close>, whose first \<open>k < R\<close> transport calls are answered with a status other than 200 and
  whose next call is answered with status 200: it returns that response, and the calls
  it has sent are exactly \<open>k + 1\<close>.
\<close>

theorem request_returns_first_200:
  assumes "url \<noteq> []" and "method \<noteq> []"
    and "map_of (methods self) (str_lower e method) = Some m"
    and "throttle_ok e (delay self)"
    and "retry self = int R" and "k < R"
    and "\<forall>i<k. refused (transport e (sends tr + i) (the_call self m url kwargs))"
    and "transport e (sends tr + k) (the_call self m url kwargs) = Inr r"
    and "status_code r = 200"
  shows "case request e self tr url method kwargs of
           (out, self', tr') \<Rightarrow>
              out = Inr r
            \<and> sent tr' = sent tr @ replicate (k + 1) (the_call self m url kwargs)"
proof -
  have "int k < retry self" using assms(5,6) by simp
  from request_succeeds [OF assms(1-4) this assms(7-9)] show ?thesis by auto
qed

text \<open>
  Retry limit 3 and a transport answering 503, 503, 200: the third response is returned
  after three calls.
\<close>

theorem request_returns_first_200_witness:
  "request (example_env (\<lambda>n rq. Inr (status_only (if n < 2 then 503 else 200))))
      (example_handler 3 FalseDelay_init) [] ''http://h/'' ''post'' [(''data'', VStr ''x'')]
    = (Inr (status_only 200), example_handler 3 FalseDelay_init,
       replicate 3 (Send \<lparr>callee = Bound Session ''post'', req_url = ''http://h/'',
              req_kwargs = [(''data'', VStr ''x''), (''headers'', VDict HEADERS)]\<rparr>))"
proof -
  let ?e = "example_env (\<lambda>n rq. Inr (status_only (if n < 2 then 503 else 200)))"
  let ?h = "example_handler 3 FalseDelay_init"
  let ?m = "Bound Session ''post''"
  let ?kw = "[(''data'', VStr ''x'')]"
  have h: "''http://h/'' \<noteq> []" "''post'' \<noteq> []"
    "map_of (methods ?h) (str_lower ?e ''post'') = Some ?m"
    "throttle_ok ?e (delay ?h)"
    "retry ?h = int 3" "2 < (3::nat)"
    "\<forall>i<2. refused (transport ?e (sends [] + i) (the_call ?h ?m ''http://h/'' ?kw))"
    "transport ?e (sends [] + 2) (the_call ?h ?m ''http://h/'' ?kw) = Inr (status_only 200)"
    "status_code (status_only 200) = 200"
    by (simp_all add: example_handler_def example_env_def ascii_lower_def bound_methods_def
        throttle_ok_def FalseDelay_init_def Delay_init_def refused_def status_only_def sends_def)
  have "case request ?e ?h [] ''http://h/'' ''post'' ?kw of
          (out, self', tr') \<Rightarrow>
             out = Inr (status_only 200)
           \<and> sent tr' = sent [] @ replicate (2 + 1) (the_call ?h ?m ''http://h/'' ?kw)"
    by (rule request_returns_first_200 [OF h])
  moreover have "request ?e ?h [] ''http://h/'' ''post'' ?kw
    = (Inr (status_only 200), ?h,
       replicate 3 (Send \<lparr>callee = Bound Session ''post'', req_url = ''http://h/'',
              req_kwargs = [(''data'', VStr ''x''), (''headers'', VDict HEADERS)]\<rparr>))"
    by (simp add: example_handler_def request_def example_env_def ascii_lower_def
        bound_methods_def with_headers_def request_loop.simps action_def FalseDelay_action_def
        FalseDelay_init_def Delay_init_def sends_def status_only_def Let_def numeral_3_eq_3)
  ultimately show ?thesis by simp
qed

text \<open>
  C6. A dispatch with valid arguments and a working delay, whose first \<open>k\<close> transport
  calls are answered with a status other than 200 and whose next call, within the retry
  limit, raises \<open>x\<close>: the dispatch raises \<open>x\<close> itself, and the calls it has sent are exactly
  \<open>k + 1\<close>, the raising one being the last, however many attempts the limit would still
  allow.
\<close>

theorem request_propagates_transport_exception:
  assumes "url \<noteq> []" and "method \<noteq> []"
    and "map_of (methods self) (str_lower e method) = Some m"
    and "throttle_ok e (delay self)"
    and "retry self = int R" and "k < R"
    and "\<forall>i<k. refused (transport e (sends tr + i) (the_call self m url kwargs))"
    and "transport e (sends tr + k) (the_call self m url kwargs) = Inl x"
  shows "case request e self tr url method kwargs of
           (out, self', tr') \<Rightarrow>
              out = Inl x
            \<and> sent tr' = sent tr @ replicate (k + 1) (the_call self m url kwargs)"
proof -
  have "int k < retry self" using assms(5,6) by simp
  from request_raises [OF assms(1-4) this assms(7,8)] show ?thesis by auto
qed

text \<open>
  Retry limit 5 and a transport that answers 500 once and then times out: the
  \<^verbatim>\<open>Timeout\<close> reaches the caller after two calls, three attempts unused.
\<close>

theorem request_propagates_transport_exception_witness:
  "request (example_env (\<lambda>n rq. if n = 0 then Inr (status_only 500) else Inl Timeout))
      (example_handler 5 FalseDelay_init) [] ''http://h/'' ''get'' []
    = (Inl Timeout, example_handler 5 FalseDelay_init,
       replicate 2 (Send \<lparr>callee = Bound Session ''get'', req_url = ''http://h/'',
              req_kwargs = [(''headers'', VDict HEADERS)]\<rparr>))"
proof -
  let ?e = "example_env (\<lambda>n rq. if n = 0 then Inr (status_only 500) else Inl Timeout)"
  let ?h = "example_handler 5 FalseDelay_init"
  let ?m = "Bound Session ''get''"
  have h: "''http://h/'' \<noteq> []" "''get'' \<noteq> []"
    "map_of (methods ?h) (str_lower ?e ''get'') = Some ?m"
    "throttle_ok ?e (delay ?h)"
    "retry ?h = int 5" "1 < (5::nat)"
    "\<forall>i<1. refused (transport ?e (sends [] + i) (the_call ?h ?m ''http://h/'' []))"
    "transport ?e (sends [] + 1) (the_call ?h ?m ''http://h/'' []) = Inl Timeout"
    by (simp_all add: example_handler_def example_env_def ascii_lower_def bound_methods_def
        throttle_ok_def FalseDelay_init_def Delay_init_def refused_def status_only_def sends_def)
  have "case request ?e ?h [] ''http://h/'' ''get'' [] of
          (out, self', tr') \<Rightarrow>
             out = Inl Timeout
           \<and> sent tr' = sent [] @ replicate (1 + 1) (the_call ?h ?m ''http://h/'' [])"
    by (rule request_propagates_transport_exception [OF h])
  moreover have "request ?e ?h [] ''http://h/'' ''get'' []
    = (Inl Timeout, ?h,
       replicate 2 (Send \<lparr>callee = Bound Session ''get'', req_url = ''http://h/'',
              req_kwargs = [(''headers'', VDict HEADERS)]\<rparr>))"
    by (simp add: example_handler_def request_def example_env_def ascii_lower_def
        bound_methods_def with_headers_def request_loop.simps action_def FalseDelay_action_def
        FalseDelay_init_def Delay_init_def sends_def status_only_def Let_def numeral_2_eq_2)
  ultimately show ?thesis by simp
qed

subsection \<open>Dispatch with invalid arguments\<close>

text \<open>The three messages never coincide: their first bytes differ.\<close>

lemma messages_distinct:
  "MSG_INCOMPLETE \<noteq> MSG_UNKNOWN_METHOD @ x"
  "MSG_INCOMPLETE \<noteq> http_message code u"
  "MSG_UNKNOWN_METHOD @ x \<noteq> http_message code u"
  by (simp_all add: MSG_INCOMPLETE_def MSG_UNKNOWN_METHOD_def http_message_def MSG_HTTP_STATUS_def)

lemma map_of_bound_methods:
  "map_of (bound_methods s) k = None
     \<longleftrightarrow> k \<notin> {''get'', ''options'', ''head'', ''post'', ''put'', ''patch'', ''delete''}"
  by (simp add: bound_methods_def)

text \<open>
  C4. The three kinds of error of the dispatch are the three messages it raises
  \<^verbatim>\<open>RuntimeError\<close> with: the one of line 88 (the arguments are incomplete), the one of line
  92 (unknown method) and the one of line 116 (HTTP status). A dispatch with an empty URL
  or an empty method raises the first. A dispatch that passes that check, with a method
  whose lower-cased form is none of the seven verbs, raises the second, which ends with
  the lower-cased method. In both cases the handler and the trace are as before the
  call: nothing was sent. The three errors are different values for every method, status
  code and URL.
\<close>

theorem request_rejects_arguments:
  "(url = [] \<or> method = [] \<longrightarrow>
      request e self tr url method kwargs = (Inl (RuntimeError MSG_INCOMPLETE), self, tr))
   \<and> (url \<noteq> [] \<and> method \<noteq> [] \<and> methods self = bound_methods s
        \<and> str_lower e method \<notin> {''get'', ''options'', ''head'', ''post'', ''put'', ''patch'', ''delete''}
      \<longrightarrow> request e self tr url method kwargs
            = (Inl (RuntimeError (MSG_UNKNOWN_METHOD @ str_lower e method)), self, tr))
   \<and> RuntimeError MSG_INCOMPLETE \<noteq> RuntimeError (MSG_UNKNOWN_METHOD @ x)
   \<and> RuntimeError MSG_INCOMPLETE \<noteq> RuntimeError (http_message code u)
   \<and> RuntimeError (MSG_UNKNOWN_METHOD @ x) \<noteq> RuntimeError (http_message code u)"
proof (intro conjI impI)
  assume "url = [] \<or> method = []"
  then show "request e self tr url method kwargs = (Inl (RuntimeError MSG_INCOMPLETE), self, tr)"
    by (auto simp: request_def)
next
  assume a: "url \<noteq> [] \<and> method \<noteq> [] \<and> methods self = bound_methods s
        \<and> str_lower e method \<notin> {''get'', ''options'', ''head'', ''post'', ''put'', ''patch'', ''delete''}"
  then have "map_of (methods self) (str_lower e method) = None"
    by (simp add: map_of_bound_methods)
  with a show "request e self tr url method kwargs
            = (Inl (RuntimeError (MSG_UNKNOWN_METHOD @ str_lower e method)), self, tr)"
    by (simp add: request_def Let_def)
qed (simp_all add: messages_distinct)

text \<open>
  \<^verbatim>\<open>request('', 'get')\<close> and \<^verbatim>\<open>request('x', 'unKnown')\<close> on a handler with a counting
  delay, in a world where the transport would answer 200.
\<close>

theorem request_rejects_arguments_witness:
  "request (example_env (\<lambda>n rq. Inr (status_only 200))) (example_handler 3 (Delay_init 1 1)) []
      [] ''get'' []
     = (Inl (RuntimeError MSG_INCOMPLETE), example_handler 3 (Delay_init 1 1), [])
   \<and> request (example_env (\<lambda>n rq. Inr (status_only 200))) (example_handler 3 (Delay_init 1 1)) []
      ''x'' ''unKnown'' []
     = (Inl (RuntimeError (MSG_UNKNOWN_METHOD @ ''unknown'')), example_handler 3 (Delay_init 1 1), [])"
proof -
  let ?e = "example_env (\<lambda>n rq. Inr (status_only 200))"
  let ?h = "example_handler 3 (Delay_init 1 1)"
  have l: "str_lower ?e ''unKnown'' = ''unknown''"
    by (simp add: example_env_def ascii_lower_def)
  have m: "methods ?h = bound_methods Session" by (simp add: example_handler_def)
  show ?thesis
    using request_rejects_arguments [of "[]" "''get''" ?e ?h "[]" "[]" Session]
      request_rejects_arguments [of "''x''" "''unKnown''" ?e ?h "[]" "[]" Session]
    by (simp add: l m)
qed

text \<open>
  C8. A dispatch that fails the validation (empty URL, empty method, or a method with no
  binding) raises with the handler, and so the delay and its counter, unchanged and the
  trace unchanged: the delay was not activated and \<^verbatim>\<open>time.sleep\<close> was not called.
\<close>

theorem invalid_request_leaves_delay_alone:
  assumes "url = [] \<or> method = [] \<or> map_of (methods self) (str_lower e method) = None"
  shows "case request e self tr url method kwargs of
           (out, self', tr') \<Rightarrow>
              isl out \<and> self' = self \<and> counter (delay self') = counter (delay self)
            \<and> tr' = tr \<and> pauses tr' = pauses tr"
  using assms by (auto simp: request_def Let_def)

text \<open>
  On a handler whose delay would pause at every activation, with its counter at 7: the
  three kinds of invalid call leave the counter at 7 and the trace empty.
\<close>

theorem invalid_request_leaves_delay_alone_witness:
  "request (example_env (\<lambda>n rq. Inr (status_only 200)))
      (example_handler 3 (Delay_init 1 1\<lparr>counter := 7\<rparr>)) [] [] ''get'' []
     = (Inl (RuntimeError MSG_INCOMPLETE), example_handler 3 (Delay_init 1 1\<lparr>counter := 7\<rparr>), [])
   \<and> request (example_env (\<lambda>n rq. Inr (status_only 200)))
      (example_handler 3 (Delay_init 1 1\<lparr>counter := 7\<rparr>)) [] ''x'' [] []
     = (Inl (RuntimeError MSG_INCOMPLETE), example_handler 3 (Delay_init 1 1\<lparr>counter := 7\<rparr>), [])
   \<and> request (example_env (\<lambda>n rq. Inr (status_only 200)))
      (example_handler 3 (Delay_init 1 1\<lparr>counter := 7\<rparr>)) [] ''x'' ''fetch'' []
     = (Inl (RuntimeError (MSG_UNKNOWN_METHOD @ ''fetch'')),
        example_handler 3 (Delay_init 1 1\<lparr>counter := 7\<rparr>), [])"
proof -
  let ?e = "example_env (\<lambda>n rq. Inr (status_only 200))"
  let ?h = "example_handler 3 (Delay_init 1 1\<lparr>counter := 7\<rparr>)"
  have n: "map_of (methods ?h) (str_lower ?e ''fetch'') = None"
    by (simp add: example_handler_def example_env_def ascii_lower_def bound_methods_def)
  have a: "case request ?e ?h [] [] ''get'' [] of
      (out, self', tr') \<Rightarrow> isl out \<and> self' = ?h \<and> counter (delay self') = counter (delay ?h)
        \<and> tr' = [] \<and> pauses tr' = pauses []"
    by (rule invalid_request_leaves_delay_alone) simp
  have b: "case request ?e ?h [] ''x'' [] [] of
      (out, self', tr') \<Rightarrow> isl out \<and> self' = ?h \<and> counter (delay self') = counter (delay ?h)
        \<and> tr' = [] \<and> pauses tr' = pauses []"
    by (rule invalid_request_leaves_delay_alone) simp
  have c: "case request ?e ?h [] ''x'' ''fetch'' [] of
      (out, self', tr') \<Rightarrow> isl out \<and> self' = ?h \<and> counter (delay self') = counter (delay ?h)
        \<and> tr' = [] \<and> pauses tr' = pauses []"
    by (rule invalid_request_leaves_delay_alone) (simp add: n)
  have "request ?e ?h [] [] ''get'' [] = (Inl (RuntimeError MSG_INCOMPLETE), ?h, [])"
    "request ?e ?h [] ''x'' [] [] = (Inl (RuntimeError MSG_INCOMPLETE), ?h, [])"
    "request ?e ?h [] ''x'' ''fetch'' [] = (Inl (RuntimeError (MSG_UNKNOWN_METHOD @ ''fetch'')), ?h, [])"
    by (simp_all add: request_def example_handler_def example_env_def ascii_lower_def
        bound_methods_def)
  with a b c show ?thesis by simp
qed

subsection \<open>The delay counts the attempts\<close>

lemma activated_add: "activated n (activated k d) = activated (k + n) d"
  by (simp add: activated_def split: delay_class.splits)

text \<open>
  Whatever way the loop ends, a delay that cannot raise was activated once for every
  transport call sent.
\<close>

lemma request_loop_counts:
  assumes "throttle_ok e d"
  shows "case request_loop e m url kw R c res d tr of
           (out, d', tr') \<Rightarrow> sends tr \<le> sends tr' \<and> d' = activated (sends tr' - sends tr) d"
  using assms
proof (induction "nat (R - c)" arbitrary: c res d tr)
  case 0
  then have "\<not> c < R" by simp
  then show ?case
    by (subst request_loop.simps) (simp add: activated_0 split: option.splits)
next
  case (Suc n)
  let ?rq = "\<lparr>callee = m, req_url = url, req_kwargs = kw\<rparr>"
  from Suc.hyps(2) have lt: "c < R" by simp
  show ?case
  proof (cases "transport e (sends tr) ?rq")
    case (Inl x)
    obtain tr' where "request_loop e m url kw R c res d tr = (Inl x, activated (Suc 0) d, tr')"
      and "sent tr' = sent tr @ [?rq]"
      using request_loop_raise [OF Suc.prems lt Inl] by blast
    then show ?thesis by (simp add: sends_def)
  next
    case (Inr r)
    show ?thesis
    proof (cases "status_code r = 200")
      case True
      obtain tr' where "request_loop e m url kw R c res d tr = (Inr r, activated (Suc 0) d, tr')"
        and "sent tr' = sent tr @ [?rq]"
        using request_loop_success [OF Suc.prems lt Inr True] by blast
      then show ?thesis by (simp add: sends_def)
    next
      case False
      obtain tr1 where one: "request_loop e m url kw R c res d tr =
          request_loop e m url kw R (c + 1) (Some r) (activated (Suc 0) d) tr1"
        and tr1: "sent tr1 = sent tr @ [?rq]"
        using request_loop_retry [OF Suc.prems lt Inr False] by blast
      have s1: "sends tr1 = Suc (sends tr)" using tr1 by (simp add: sends_def)
      have n: "n = nat (R - (c + 1))" using Suc.hyps(2) by simp
      have ok1: "throttle_ok e (activated (Suc 0) d)"
        using Suc.prems by (simp add: throttle_ok_activated)
      have "case request_loop e m url kw R (c + 1) (Some r) (activated (Suc 0) d) tr1 of
              (out, d', tr') \<Rightarrow> sends tr1 \<le> sends tr'
                \<and> d' = activated (sends tr' - sends tr1) (activated (Suc 0) d)"
        by (rule Suc.hyps(1) [OF n ok1])
      then obtain out d' tr' where
        r: "request_loop e m url kw R (c + 1) (Some r) (activated (Suc 0) d) tr1 = (out, d', tr')"
        and le: "sends tr1 \<le> sends tr'"
        and d': "d' = activated (sends tr' - sends tr1) (activated (Suc 0) d)"
        by (cases "request_loop e m url kw R (c + 1) (Some r) (activated (Suc 0) d) tr1") auto
      have "Suc 0 + (sends tr' - sends tr1) = sends tr' - sends tr" using le s1 by simp
      then have "d' = activated (sends tr' - sends tr) d" using d' by (simp only: activated_add)
      moreover have "sends tr \<le> sends tr'" using le s1 by simp
      ultimately show ?thesis using one r by simp
    qed
  qed
qed

lemma request_counts:
  assumes "url \<noteq> []" and "method \<noteq> []"
    and "map_of (methods self) (str_lower e method) = Some m"
    and "throttle_ok e (delay self)"
  shows "case request e self tr url method kwargs of
           (out, self', tr') \<Rightarrow>
              sends tr \<le> sends tr' \<and> delay self' = activated (sends tr' - sends tr) (delay self)"
  using request_loop_counts [OF assms(4), where m = m and url = url
      and kw = "with_headers self kwargs" and R = "retry self" and c = 0 and res = None and tr = tr]
  by (auto simp: request_valid [OF assms(1-3)] split: prod.splits)

text \<open>
  C9, as the code has it. For a dispatch with valid arguments on a handler whose delay is
  a \<^verbatim>\<open>Delay\<close> (not the no-op \<^verbatim>\<open>_FalseDelay_\<close> that \<^verbatim>\<open>__init__\<close> installs by default) with a step
  other than 0 and a sleep time on which \<^verbatim>\<open>time.sleep\<close> does not raise: whatever the outcome, the counter has grown
  by exactly the number of transport calls the dispatch sent; that is \<open>k + 1\<close> when the
  dispatch returns after \<open>k\<close> answers other than 200, and the retry limit \<open>R\<close> when all \<open>R\<close>
  answers are other than 200 and it raises the error of line 116. With the no-op delay
  the counter does not change.
\<close>

theorem counting_delay_counts_attempts:
  assumes "url \<noteq> []" and "method \<noteq> []"
    and "map_of (methods self) (str_lower e method) = Some m"
    and "throttle_ok e (delay self)"
    and "retry self = int R"
  shows "case request e self tr url method kwargs of
    (out, self', tr') \<Rightarrow>
      sends tr \<le> sends tr'
    \<and> (cls (delay self) = Delay \<longrightarrow>
          counter (delay self') = counter (delay self) + int (sends tr' - sends tr))
    \<and> (cls (delay self) = FalseDelay \<longrightarrow> counter (delay self') = counter (delay self))
    \<and> (cls (delay self) = Delay \<and> k < R
          \<and> (\<forall>i<k. refused (transport e (sends tr + i) (the_call self m url kwargs)))
          \<and> transport e (sends tr + k) (the_call self m url kwargs) = Inr r \<and> status_code r = 200
        \<longrightarrow> out = Inr r \<and> sends tr' = sends tr + (k + 1)
            \<and> counter (delay self') = counter (delay self) + int (k + 1))
    \<and> (cls (delay self) = Delay \<and> 1 \<le> R
          \<and> (\<forall>i<R. refused (transport e (sends tr + i) (the_call self m url kwargs)))
        \<longrightarrow> (\<exists>code. out = Inl (RuntimeError (http_message code url)))
            \<and> sends tr' = sends tr + R
            \<and> counter (delay self') = counter (delay self) + int R)"
proof -
  obtain out self' tr' where req: "request e self tr url method kwargs = (out, self', tr')"
    by (cases "request e self tr url method kwargs") auto
  have cnt: "sends tr \<le> sends tr'" "delay self' = activated (sends tr' - sends tr) (delay self)"
    using request_counts [OF assms(1-4), where tr = tr and kwargs = kwargs] req by simp_all
  have a: "cls (delay self) = Delay \<longrightarrow>
      counter (delay self') = counter (delay self) + int (sends tr' - sends tr)"
    using cnt(2) by (simp add: activated_def)
  have b: "cls (delay self) = FalseDelay \<longrightarrow> counter (delay self') = counter (delay self)"
    using cnt(2) by (simp add: activated_def)
  have c: "out = Inr r \<and> sends tr' = sends tr + (k + 1)
            \<and> counter (delay self') = counter (delay self) + int (k + 1)"
    if h: "cls (delay self) = Delay" "k < R"
      "\<forall>i<k. refused (transport e (sends tr + i) (the_call self m url kwargs))"
      "transport e (sends tr + k) (the_call self m url kwargs) = Inr r" "status_code r = 200"
  proof -
    have "int k < retry self" using assms(5) h(2) by simp
    from request_succeeds [OF assms(1-4) this h(3-5)] req
    have o: "out = Inr r" and s: "sent tr' = sent tr @ replicate (Suc k) (the_call self m url kwargs)"
      by auto
    from s have "sends tr' = sends tr + (k + 1)" by (simp add: sends_def)
    with o a h(1) show ?thesis by simp
  qed
  have d: "(\<exists>code. out = Inl (RuntimeError (http_message code url)))
            \<and> sends tr' = sends tr + R
            \<and> counter (delay self') = counter (delay self) + int R"
    if h: "cls (delay self) = Delay" "1 \<le> R"
      "\<forall>i<R. refused (transport e (sends tr + i) (the_call self m url kwargs))"
  proof -
    from request_fails [OF assms(1-5) h(2,3)] req
    have o: "\<exists>code. out = Inl (RuntimeError (http_message code url))"
      and s: "sent tr' = sent tr @ replicate R (the_call self m url kwargs)"
      by auto
    from s have "sends tr' = sends tr + R" by (simp add: sends_def)
    with o a h(1) show ?thesis by simp
  qed
  show ?thesis
    unfolding req using cnt(1) a b c d by simp
qed

text \<open>
  \<^verbatim>\<open>RequestHandler(retry=3, delay=Delay(2, 1))\<close> with the counter at 4 and a transport
  answering 503, 200: two calls, and the counter at 6.
\<close>

theorem counting_delay_counts_attempts_witness:
  "request (example_env (\<lambda>n rq. Inr (status_only (if n < 1 then 503 else 200))))
      (example_handler 3 (Delay_init 2 1\<lparr>counter := 4\<rparr>)) [] ''http://h/'' ''get'' []
    = (Inr (status_only 200), example_handler 3 (Delay_init 2 1\<lparr>counter := 6\<rparr>),
       [Send \<lparr>callee = Bound Session ''get'', req_url = ''http://h/'',
              req_kwargs = [(''headers'', VDict HEADERS)]\<rparr>,
        Sleep 1,
        Send \<lparr>callee = Bound Session ''get'', req_url = ''http://h/'',
              req_kwargs = [(''headers'', VDict HEADERS)]\<rparr>])"
proof -
  let ?e = "example_env (\<lambda>n rq. Inr (status_only (if n < 1 then 503 else 200)))"
  let ?h = "example_handler 3 (Delay_init 2 1\<lparr>counter := 4\<rparr>)"
  let ?m = "Bound Session ''get''"
  have h: "''http://h/'' \<noteq> []" "''get'' \<noteq> []"
    "map_of (methods ?h) (str_lower ?e ''get'') = Some ?m"
    "throttle_ok ?e (delay ?h)"
    "retry ?h = int 3"
    by (simp_all add: example_handler_def example_env_def ascii_lower_def bound_methods_def
        throttle_ok_def Delay_init_def)
  note t = counting_delay_counts_attempts [OF h, where tr = "[]" and kwargs = "[]" and k = 1
      and r = "status_only 200"]
  have ev: "request ?e ?h [] ''http://h/'' ''get'' []
    = (Inr (status_only 200), example_handler 3 (Delay_init 2 1\<lparr>counter := 6\<rparr>),
       [Send \<lparr>callee = Bound Session ''get'', req_url = ''http://h/'',
              req_kwargs = [(''headers'', VDict HEADERS)]\<rparr>,
        Sleep 1,
        Send \<lparr>callee = Bound Session ''get'', req_url = ''http://h/'',
              req_kwargs = [(''headers'', VDict HEADERS)]\<rparr>])"
    by (simp add: example_handler_def request_def example_env_def ascii_lower_def
        bound_methods_def with_headers_def request_loop.simps action_def Delay_action_def
        Delay_init_def sends_def status_only_def Let_def)
  show ?thesis using t ev by simp
qed

text \<open>
  The claim as it is worded fails on the handler \<^verbatim>\<open>RequestHandler()\<close> builds: its delay
  is the no-op one, so a dispatch that sends one call leaves the counter at 0.
\<close>

theorem counting_delay_counts_attempts_counterexample:
  "map_sum id handler_of (init True VNone (VStr ''UTF-8'') 3 None [])
      = Inr (Some (example_handler 3 FalseDelay_init))
   \<and> request (example_env (\<lambda>n rq. Inr (status_only 200)))
        (example_handler 3 FalseDelay_init) [] ''http://h/'' ''get'' []
      = (Inr (status_only 200), example_handler 3 FalseDelay_init,
         [Send \<lparr>callee = Bound Session ''get'', req_url = ''http://h/'',
                req_kwargs = [(''headers'', VDict HEADERS)]\<rparr>])
   \<and> sends [Send \<lparr>callee = Bound Session ''get'', req_url = ''http://h/'',
                req_kwargs = [(''headers'', VDict HEADERS)]\<rparr>] - sends [] = 1
   \<and> counter (delay (example_handler 3 FalseDelay_init)) = 0"
  by (simp add: init_example_handler example_handler_def request_def example_env_def ascii_lower_def
        bound_methods_def with_headers_def request_loop.simps action_def FalseDelay_action_def
        FalseDelay_init_def Delay_init_def sends_def status_only_def Let_def)

subsection \<open>Download\<close>

text \<open>The delay and the transport write nothing to the file.\<close>

lemma action_written: "action e d tr = (r, d', tr') \<Longrightarrow> written tr' = written tr"
  by (auto simp: action_def Delay_action_def FalseDelay_action_def Let_def
      written_append split: delay_class.splits if_splits option.splits)

lemma request_loop_written:
  "request_loop e m url kw R c res d tr = (out, d', tr') \<Longrightarrow> written tr' = written tr"
proof (induction "nat (R - c)" arbitrary: c res d tr)
  case 0
  then have "\<not> c < R" by simp
  with "0.prems" show ?case
    by (subst (asm) request_loop.simps) (auto split: option.splits)
next
  case (Suc n)
  let ?rq = "\<lparr>callee = m, req_url = url, req_kwargs = kw\<rparr>"
  from Suc.hyps(2) have lt: "c < R" by simp
  obtain a d1 tr1 where act: "action e d tr = (a, d1, tr1)"
    by (cases "action e d tr") auto
  have w1: "written tr1 = written tr" by (rule action_written [OF act])
  show ?case
  proof (cases a)
    case (Inl x)
    with Suc.prems lt act w1 show ?thesis
      by (subst (asm) request_loop.simps) auto
  next
    case (Inr u)
    show ?thesis
    proof (cases "transport e (sends tr1) ?rq")
      case (Inl x)
      with Suc.prems lt act w1 Inr show ?thesis
        by (subst (asm) request_loop.simps) (auto simp: written_append)
    next
      case r: (Inr r)
      show ?thesis
      proof (cases "status_code r = 200")
        case True
        with Suc.prems lt act w1 Inr r show ?thesis
          by (subst (asm) request_loop.simps) (auto simp: written_append)
      next
        case False
        with Suc.prems lt act Inr r
        have rec: "request_loop e m url kw R (c + 1) (Some r) d1 (tr1 @ [Send ?rq]) = (out, d', tr')"
          by (subst (asm) request_loop.simps) auto
        have n: "n = nat (R - (c + 1))" using Suc.hyps(2) by simp
        have "written tr' = written (tr1 @ [Send ?rq])"
          by (rule Suc.hyps(1) [OF n rec])
        then show ?thesis using w1 by (simp add: written_append)
      qed
    qed
  qed
qed

lemma request_written:
  "request e self tr url method kwargs = (out, self', tr') \<Longrightarrow> written tr' = written tr"
  by (auto simp: request_def Let_def split: if_splits option.splits prod.splits
      dest: request_loop_written)

lemma read_length_Cons: "read_length (c # cs) (Suc j) = int (length c) + read_length cs j"
  by (simp add: read_length_def)

lemma read_length_0: "read_length cs 0 = 0"
  by (simp add: read_length_def)

lemma sum_length_nonempty:
  "sum_list (map length (filter (\<lambda>c. c \<noteq> []) cs)) = sum_list (map length cs)"
  by (induction cs) simp_all

text \<open>
  The loop reads a number \<open>n\<close> of chunks and writes those of them that are not empty: no
  length reached the content length before the \<open>n\<close>th chunk, and the loop goes on to the
  end of the stream unless the length has reached it with the \<open>n\<close>th.
\<close>

lemma write_chunks_reads:
  "\<exists>n\<le>length cs.
      write_chunks L dl cs tr = tr @ map Write (filter (\<lambda>c. c \<noteq> []) (take n cs))
    \<and> (cs \<noteq> [] \<longrightarrow> 0 < n)
    \<and> (\<forall>j. 0 < j \<and> j < n \<longrightarrow> dl + read_length cs j < L)
    \<and> (n < length cs \<longrightarrow> L \<le> dl + read_length cs n)"
proof (induction cs arbitrary: dl tr)
  case Nil
  then show ?case by simp
next
  case (Cons c cs)
  let ?tr1 = "if c \<noteq> [] then tr @ [Write c] else tr"
  let ?dl1 = "dl + int (length c)"
  show ?case
  proof (cases "L \<le> ?dl1")
    case True
    then have "write_chunks L dl (c # cs) tr = tr @ map Write (filter (\<lambda>c. c \<noteq> []) (take 1 (c # cs)))"
      by (simp add: Let_def)
    moreover have "L \<le> dl + read_length (c # cs) 1"
      using True by (simp add: read_length_def)
    ultimately show ?thesis
      by (intro exI [of _ 1]) simp
  next
    case False
    obtain n where n: "n \<le> length cs"
      and w: "write_chunks L ?dl1 cs ?tr1 = ?tr1 @ map Write (filter (\<lambda>c. c \<noteq> []) (take n cs))"
      and before: "\<forall>j. 0 < j \<and> j < n \<longrightarrow> ?dl1 + read_length cs j < L"
      and stop: "n < length cs \<longrightarrow> L \<le> ?dl1 + read_length cs n"
      using Cons.IH [of ?dl1 ?tr1] by blast
    have 1: "write_chunks L dl (c # cs) tr
        = tr @ map Write (filter (\<lambda>c. c \<noteq> []) (take (Suc n) (c # cs)))"
      using False w by (simp add: Let_def)
    have 2: "dl + read_length (c # cs) j < L" if j: "0 < j \<and> j < Suc n" for j
    proof (cases j)
      case 0
      with j show ?thesis by simp
    next
      case (Suc j')
      show ?thesis
      proof (cases "j' = 0")
        case True
        with Suc False show ?thesis by (simp add: read_length_Cons read_length_0)
      next
        case False
        with Suc j before have "?dl1 + read_length cs j' < L" by simp
        with Suc show ?thesis by (simp add: read_length_Cons)
      qed
    qed
    have 3: "Suc n < length (c # cs) \<longrightarrow> L \<le> dl + read_length (c # cs) (Suc n)"
      using stop by (simp add: read_length_Cons add.assoc)
    show ?thesis
      using n 1 2 3 by (intro exI [of _ "Suc n"]) simp
  qed
qed

text \<open>What \<^verbatim>\<open>download\<close> does once the dispatch of line 157 has returned a response.\<close>

lemma download_after_request:
  assumes "make_if_doesnt_exist e (fst (os_path_split e save_path)) = None"
    and "open_wb e save_path = None"
    and "''stream'' \<notin> fst ` set kwargs"
    and "request e self (tr @ [MakeDirs (fst (os_path_split e save_path)), OpenWB save_path])
           url method ((''stream'', VBool True) # kwargs) = (Inr res, self', tr')"
  shows "download e self tr url save_path method kwargs =
     (case download_body e res tr' of (r, tr'') \<Rightarrow> (r, self', tr'' @ [CloseResponse, CloseFile]))"
  using assms by (simp add: download_def Let_def)

lemma read_length_Suc:
  "j < length cs \<Longrightarrow> read_length cs (Suc j) = read_length cs j + int (length (cs ! j))"
  by (simp add: read_length_def take_Suc_conv_app_nth)

text \<open>
  C3. A download whose dispatch returns a response with a \<^verbatim>\<open>Content-Length\<close> header that
  \<^verbatim>\<open>int\<close> reads as \<open>L\<close>: it iterates the chunks of size \<open>CHUCK_SIZE\<close>, reads a number \<open>n\<close> of
  them and writes those that are not empty, in order, then closes the response and the
  file. It reads at least one chunk when there is one; before the \<open>n\<close>th chunk the length
  read (empty chunks included) was below \<open>L\<close>; it stops before the end of the stream only
  with the length read at \<open>L\<close> or more. The bytes written are the bytes read, and for
  \<open>L \<ge> 0\<close> they exceed \<open>L\<close> by at most the length of the last chunk read.
\<close>

theorem download_reads_until_content_length:
  assumes "make_if_doesnt_exist e (fst (os_path_split e save_path)) = None"
    and "open_wb e save_path = None"
    and "''stream'' \<notin> fst ` set kwargs"
    and "request e self (tr @ [MakeDirs (fst (os_path_split e save_path)), OpenWB save_path])
           url method ((''stream'', VBool True) # kwargs) = (Inr res, self', tr')"
    and "res_headers res ''Content-Length'' = Some v"
    and "py_int e v = Inr L"
    and "cs = iter_content res CHUCK_SIZE"
  shows "\<exists>n\<le>length cs.
      download e self tr url save_path method kwargs
        = (Inr (), self',
           tr' @ IterContent CHUCK_SIZE # map Write (filter (\<lambda>c. c \<noteq> []) (take n cs))
               @ [CloseResponse, CloseFile])
    \<and> (cs \<noteq> [] \<longrightarrow> 0 < n)
    \<and> (\<forall>j. 0 < j \<and> j < n \<longrightarrow> read_length cs j < L)
    \<and> (n < length cs \<longrightarrow> L \<le> read_length cs n)
    \<and> int (sum_list (map length (filter (\<lambda>c. c \<noteq> []) (take n cs)))) = read_length cs n
    \<and> (0 \<le> L \<and> 0 < n \<longrightarrow> read_length cs n \<le> L + int (length (cs ! (n - 1))))"
proof -
  let ?tr1 = "tr' @ [IterContent CHUCK_SIZE]"
  obtain n where n: "n \<le> length cs"
    and w: "write_chunks L 0 cs ?tr1 = ?tr1 @ map Write (filter (\<lambda>c. c \<noteq> []) (take n cs))"
    and first: "cs \<noteq> [] \<longrightarrow> 0 < n"
    and before: "\<forall>j. 0 < j \<and> j < n \<longrightarrow> 0 + read_length cs j < L"
    and stop: "n < length cs \<longrightarrow> L \<le> 0 + read_length cs n"
    using write_chunks_reads [of cs L 0 ?tr1] by blast
  have body: "download_body e res tr' =
      (Inr (), tr' @ IterContent CHUCK_SIZE # map Write (filter (\<lambda>c. c \<noteq> []) (take n cs)))"
    using assms(5-7) w by (simp add: download_body_def)
  have 1: "download e self tr url save_path method kwargs
        = (Inr (), self',
           tr' @ IterContent CHUCK_SIZE # map Write (filter (\<lambda>c. c \<noteq> []) (take n cs))
               @ [CloseResponse, CloseFile])"
    using body by (simp add: download_after_request [OF assms(1-4)])
  have 2: "int (sum_list (map length (filter (\<lambda>c. c \<noteq> []) (take n cs)))) = read_length cs n"
    by (simp add: read_length_def sum_length_nonempty)
  have 3: "read_length cs n \<le> L + int (length (cs ! (n - 1)))" if h: "0 \<le> L \<and> 0 < n"
  proof -
    obtain j where j: "n = Suc j" using h by (cases n) auto
    have s: "read_length cs n = read_length cs j + int (length (cs ! j))"
      using n j by (simp add: read_length_Suc)
    show ?thesis
    proof (cases "j = 0")
      case True
      with s h j show ?thesis by (simp add: read_length_0)
    next
      case False
      with before j have "read_length cs j < L" by simp
      with s j show ?thesis by simp
    qed
  qed
  show ?thesis
    using n 1 first before stop 2 3 by (intro exI [of _ n]) simp
qed

text \<open>
  \<^verbatim>\<open>Content-Length: 100\<close> and a stream of three chunks of 40 bytes: after two chunks the
  length read is 80, below 100, so the third is read and written too, 120 bytes in all.
\<close>

theorem download_reads_until_content_length_witness:
  "download
      (example_env (\<lambda>n rq. Inr (chunked [''Content-Length'' \<mapsto> ''100''] (replicate 3 (replicate 40 0)))))
      (example_handler 3 FalseDelay_init) [] ''http://h/f'' ''/tmp/f.bin'' ''get'' []
    = (Inr (), example_handler 3 FalseDelay_init,
       [MakeDirs ''/tmp'', OpenWB ''/tmp/f.bin'',
        Send \<lparr>callee = Bound Session ''get'', req_url = ''http://h/f'',
              req_kwargs = [(''stream'', VBool True), (''headers'', VDict HEADERS)]\<rparr>,
        IterContent 8192,
        Write (replicate 40 0), Write (replicate 40 0), Write (replicate 40 0),
        CloseResponse, CloseFile])
   \<and> read_length (replicate 3 (replicate 40 (0 :: 8 word))) 2 = 80
   \<and> read_length (replicate 3 (replicate 40 (0 :: 8 word))) 3 = 120"
proof -
  let ?res = "chunked [''Content-Length'' \<mapsto> ''100''] (replicate 3 (replicate 40 0))"
  let ?e = "example_env (\<lambda>n rq. Inr ?res)"
  let ?h = "example_handler 3 FalseDelay_init"
  let ?rq = "\<lparr>callee = Bound Session ''get'', req_url = ''http://h/f'',
              req_kwargs = [(''stream'', VBool True), (''headers'', VDict HEADERS)]\<rparr>"
  have h: "make_if_doesnt_exist ?e (fst (os_path_split ?e ''/tmp/f.bin'')) = None"
    "open_wb ?e ''/tmp/f.bin'' = None"
    "''stream'' \<notin> fst ` set ([] :: dict)"
    "request ?e ?h ([] @ [MakeDirs (fst (os_path_split ?e ''/tmp/f.bin'')), OpenWB ''/tmp/f.bin''])
       ''http://h/f'' ''get'' ((''stream'', VBool True) # [])
     = (Inr ?res, ?h, [MakeDirs ''/tmp'', OpenWB ''/tmp/f.bin'', Send ?rq])"
    "res_headers ?res ''Content-Length'' = Some ''100''"
    "py_int ?e ''100'' = Inr 100"
    "replicate 3 (replicate 40 0) = iter_content ?res CHUCK_SIZE"
    by (simp_all add: example_handler_def request_def example_env_def ascii_lower_def
        bound_methods_def with_headers_def request_loop.simps action_def FalseDelay_action_def
        FalseDelay_init_def Delay_init_def sends_def chunked_def int_of_digits_def Let_def)
  note t = download_reads_until_content_length [OF h]
  have ev: "download ?e ?h [] ''http://h/f'' ''/tmp/f.bin'' ''get'' []
    = (Inr (), ?h,
       [MakeDirs ''/tmp'', OpenWB ''/tmp/f.bin'', Send ?rq, IterContent 8192,
        Write (replicate 40 0), Write (replicate 40 0), Write (replicate 40 0),
        CloseResponse, CloseFile])"
    unfolding download_after_request [OF h(1-4)]
    by (simp add: download_body_def example_env_def chunked_def int_of_digits_def CHUCK_SIZE_def
        numeral_3_eq_3 Let_def)
  have rl: "read_length (replicate 3 (replicate 40 (0 :: 8 word))) 2 = 80"
    "read_length (replicate 3 (replicate 40 (0 :: 8 word))) 3 = 120"
    by (simp_all add: read_length_def numeral_3_eq_3 numeral_2_eq_2)
  from t ev rl show ?thesis by blast
qed

text \<open>
  C7. A download whose dispatch returns a response without a \<^verbatim>\<open>Content-Length\<close> header:
  after the dispatch it writes the whole \<^verbatim>\<open>content\<close> in one call and closes the response
  and the file; the chunks are not iterated, and this is the only write of the download.
\<close>

theorem download_without_content_length:
  assumes "make_if_doesnt_exist e (fst (os_path_split e save_path)) = None"
    and "open_wb e save_path = None"
    and "''stream'' \<notin> fst ` set kwargs"
    and "request e self (tr @ [MakeDirs (fst (os_path_split e save_path)), OpenWB save_path])
           url method ((''stream'', VBool True) # kwargs) = (Inr res, self', tr')"
    and "res_headers res ''Content-Length'' = None"
  shows "download e self tr url save_path method kwargs
        = (Inr (), self', tr' @ [Write (content res), CloseResponse, CloseFile])
    \<and> written (tr' @ [Write (content res), CloseResponse, CloseFile]) = written tr @ [content res]"
proof -
  have "download_body e res tr' = (Inr (), tr' @ [Write (content res)])"
    using assms(5) by (simp add: download_body_def)
  then have "download e self tr url save_path method kwargs
        = (Inr (), self', tr' @ [Write (content res), CloseResponse, CloseFile])"
    by (simp add: download_after_request [OF assms(1-4)])
  moreover have "written tr' = written tr"
    using request_written [OF assms(4)] by (simp add: written_append)
  ultimately show ?thesis by (simp add: written_append)
qed

text \<open>
  A response with no headers whose body would arrive in three chunks: one write of the
  whole body.
\<close>

theorem download_without_content_length_witness:
  "download
      (example_env (\<lambda>n rq. Inr (chunked Map.empty [[1, 2], [], [3]])))
      (example_handler 3 FalseDelay_init) [] ''http://h/f'' ''/tmp/f.bin'' ''get'' []
    = (Inr (), example_handler 3 FalseDelay_init,
       [MakeDirs ''/tmp'', OpenWB ''/tmp/f.bin'',
        Send \<lparr>callee = Bound Session ''get'', req_url = ''http://h/f'',
              req_kwargs = [(''stream'', VBool True), (''headers'', VDict HEADERS)]\<rparr>,
        Write [1, 2, 3], CloseResponse, CloseFile])"
proof -
  let ?res = "chunked Map.empty [[1, 2], [], [3]]"
  let ?e = "example_env (\<lambda>n rq. Inr ?res)"
  let ?h = "example_handler 3 FalseDelay_init"
  let ?rq = "\<lparr>callee = Bound Session ''get'', req_url = ''http://h/f'',
              req_kwargs = [(''stream'', VBool True), (''headers'', VDict HEADERS)]\<rparr>"
  have h: "make_if_doesnt_exist ?e (fst (os_path_split ?e ''/tmp/f.bin'')) = None"
    "open_wb ?e ''/tmp/f.bin'' = None"
    "''stream'' \<notin> fst ` set ([] :: dict)"
    "request ?e ?h ([] @ [MakeDirs (fst (os_path_split ?e ''/tmp/f.bin'')), OpenWB ''/tmp/f.bin''])
       ''http://h/f'' ''get'' ((''stream'', VBool True) # [])
     = (Inr ?res, ?h, [MakeDirs ''/tmp'', OpenWB ''/tmp/f.bin'', Send ?rq])"
    "res_headers ?res ''Content-Length'' = None"
    by (simp_all add: example_handler_def request_def example_env_def ascii_lower_def
        bound_methods_def with_headers_def request_loop.simps action_def FalseDelay_action_def
        FalseDelay_init_def Delay_init_def sends_def chunked_def Let_def)
  have c: "content ?res = [1, 2, 3]" by (simp add: chunked_def)
  from download_without_content_length [OF h] show ?thesis by (simp add: c)
qed

subsection \<open>The constructor\<close>

lemma setattr_plain:
  "key \<notin> {''__class__'', ''__dict__'', ''__weakref__''} \<Longrightarrow>
     setattr self key v = Inr (self\<lparr>ob_dict := AList.update key v (ob_dict self)\<rparr>)"
  by (simp add: setattr_def)

text \<open>Extra keywords with ordinary names all become attributes, and the class stays.\<close>

lemma setattrs_plain:
  "fst ` set kw \<inter> {''__class__'', ''__dict__'', ''__weakref__''} = {} \<Longrightarrow>
     setattrs self kw =
       Inr (self\<lparr>ob_dict := fold (\<lambda>(key, v). AList.update key v) kw (ob_dict self)\<rparr>)"
proof (induction kw arbitrary: self)
  case Nil
  then show ?case by simp
next
  case (Cons kv kw)
  obtain key v where kv: "kv = (key, v)" by (cases kv)
  from Cons.prems kv have k: "key \<notin> {''__class__'', ''__dict__'', ''__weakref__''}"
    and rest: "fst ` set kw \<inter> {''__class__'', ''__dict__'', ''__weakref__''} = {}"
    by auto
  show ?case
    by (simp add: kv setattr_plain [OF k] Cons.IH [OF rest])
qed

text \<open>Of two values for one key the later stays.\<close>

lemma map_of_fold_update:
  "map_of (fold (\<lambda>(key, v). AList.update key v) kw al) k
     = (case map_of (rev kw) k of Some v \<Rightarrow> Some v | None \<Rightarrow> map_of al k)"
proof (induction kw arbitrary: al)
  case Nil
  then show ?case by simp
next
  case (Cons kv kw)
  obtain key v where kv: "kv = (key, v)" by (cases kv)
  show ?case
    by (simp add: Cons.IH kv update_conv' map_add_def split: option.splits)
qed

text \<open>
  The six assignments of lines 56 to 80 and the one of line 84 on any instance the
  extra keywords left.
\<close>

lemma init_Inr:
  assumes "init session hdrs enc r d kwargs = Inr self"
  shows "\<exists>self0 dv.
      setattrs \<lparr>ob_type = RequestHandler, ob_dict = []\<rparr> kwargs = Inr self0
    \<and> (case d of
          Some d' \<Rightarrow> dv = VDelay d'
        | None \<Rightarrow> (\<exists>f. getattr_FalseDelay self0 = Inr f \<and> call0 f = Inr dv))
    \<and> ob_type self = ob_type self0
    \<and> map_of (ob_dict self) =
        (map_of (ob_dict self0))
          (''logger'' \<mapsto> VLogger ''pyasst.spider'',
           ''session'' \<mapsto> VSession (if session then Session else Requests),
           ''methods'' \<mapsto> VDict (map (\<lambda>(k, b). (k, VBound b))
                              (bound_methods (if session then Session else Requests))),
           ''headers'' \<mapsto> (if hdrs = VNone then VDict HEADERS else hdrs),
           ''encodes'' \<mapsto> (case enc of VStr s \<Rightarrow> VTuple [enc] | VList es \<Rightarrow> VTuple es | _ \<Rightarrow> enc),
           ''retry'' \<mapsto> VInt r,
           ''delay'' \<mapsto> dv)"
proof -
  obtain self0 where s0: "setattrs \<lparr>ob_type = RequestHandler, ob_dict = []\<rparr> kwargs = Inr self0"
    using assms by (cases "setattrs \<lparr>ob_type = RequestHandler, ob_dict = []\<rparr> kwargs")
      (simp_all add: init_def)
  let ?s = "if session then Session else Requests"
  let ?six = "[(''logger'', VLogger ''pyasst.spider''),
               (''session'', VSession ?s),
               (''methods'', VDict (map (\<lambda>(k, b). (k, VBound b)) (bound_methods ?s))),
               (''headers'', if hdrs = VNone then VDict HEADERS else hdrs),
               (''encodes'', case enc of VStr s \<Rightarrow> VTuple [enc] | VList es \<Rightarrow> VTuple es | _ \<Rightarrow> enc),
               (''retry'', VInt r)]"
  let ?self6 = "self0\<lparr>ob_dict := fold (\<lambda>(key, v). AList.update key v) ?six (ob_dict self0)\<rparr>"
  have six: "setattrs self0 ?six = Inr ?self6"
    by (rule setattrs_plain) simp
  have g: "getattr_FalseDelay ?self6 = getattr_FalseDelay self0"
    by (simp add: getattr_FalseDelay_def update_conv' split: option.splits)
  let ?dv = "case d of Some d' \<Rightarrow> Inr (VDelay d')
             | None \<Rightarrow> (case getattr_FalseDelay self0 of Inl x \<Rightarrow> Inl x | Inr f \<Rightarrow> call0 f)"
  have i: "init session hdrs enc r d kwargs =
      (case ?dv of Inl x \<Rightarrow> Inl x | Inr dv \<Rightarrow> setattr ?self6 ''delay'' dv)"
    unfolding init_def s0 Let_def sum.case six g ..
  then obtain dv where dv: "?dv = Inr dv" and fin: "setattr ?self6 ''delay'' dv = Inr self"
    using assms by (cases ?dv) simp_all
  have 1: "case d of Some d' \<Rightarrow> dv = VDelay d'
        | None \<Rightarrow> (\<exists>f. getattr_FalseDelay self0 = Inr f \<and> call0 f = Inr dv)"
    using dv by (auto split: option.splits sum.splits)
  have self: "self = ?self6\<lparr>ob_dict := AList.update ''delay'' dv (ob_dict ?self6)\<rparr>"
    using fin by (simp add: setattr_def)
  have 2: "ob_type self = ob_type self0" by (simp add: self)
  have 3: "map_of (ob_dict self) =
        (map_of (ob_dict self0))
          (''logger'' \<mapsto> VLogger ''pyasst.spider'',
           ''session'' \<mapsto> VSession ?s,
           ''methods'' \<mapsto> VDict (map (\<lambda>(k, b). (k, VBound b)) (bound_methods ?s)),
           ''headers'' \<mapsto> (if hdrs = VNone then VDict HEADERS else hdrs),
           ''encodes'' \<mapsto> (case enc of VStr s \<Rightarrow> VTuple [enc] | VList es \<Rightarrow> VTuple es | _ \<Rightarrow> enc),
           ''retry'' \<mapsto> VInt r,
           ''delay'' \<mapsto> dv)"
    by (simp add: self update_conv')
  show ?thesis using s0 1 2 3 by blast
qed


text \<open>
  C10, as the code has it. Whenever the construction succeeds, the attributes \<^verbatim>\<open>logger\<close>,
  \<^verbatim>\<open>session\<close>, \<^verbatim>\<open>methods\<close>, \<^verbatim>\<open>headers\<close>, \<^verbatim>\<open>encodes\<close> and \<^verbatim>\<open>retry\<close> hold the values computed from
  the named parameters, whatever the extra keywords are, and \<^verbatim>\<open>delay\<close> holds the \<^verbatim>\<open>delay\<close>
  argument when one is given: the extra keywords are attached first and the assignments
  come after them. When no \<^verbatim>\<open>delay\<close> is given, the attribute is what calling
  \<^verbatim>\<open>self._FalseDelay_\<close> returns, and that name is looked up on the instance first, where an
  extra keyword of that name is found. With no extra keyword named \<^verbatim>\<open>_FalseDelay_\<close>,
  \<^verbatim>\<open>__class__\<close>, \<^verbatim>\<open>__dict__\<close> or \<^verbatim>\<open>__weakref__\<close> the construction succeeds, the default delay is
  the no-op one, and every attribute other than the seven is the extra keyword of that
  name, if there is one.
\<close>

theorem init_core_attributes:
  "(init session hdrs enc r d kwargs = Inr self \<longrightarrow>
       map_of (ob_dict self) ''logger'' = Some (VLogger ''pyasst.spider'')
     \<and> map_of (ob_dict self) ''session'' = Some (VSession (if session then Session else Requests))
     \<and> map_of (ob_dict self) ''methods''
         = Some (VDict (map (\<lambda>(k, b). (k, VBound b))
                   (bound_methods (if session then Session else Requests))))
     \<and> map_of (ob_dict self) ''headers'' = Some (if hdrs = VNone then VDict HEADERS else hdrs)
     \<and> map_of (ob_dict self) ''encodes''
         = Some (case enc of VStr s \<Rightarrow> VTuple [enc] | VList es \<Rightarrow> VTuple es | _ \<Rightarrow> enc)
     \<and> map_of (ob_dict self) ''retry'' = Some (VInt r)
     \<and> (\<forall>d'. d = Some d' \<longrightarrow> map_of (ob_dict self) ''delay'' = Some (VDelay d'))
     \<and> (d = None \<longrightarrow>
          (\<exists>f dv. getattr_FalseDelay self = Inr f \<and> call0 f = Inr dv
                 \<and> map_of (ob_dict self) ''delay'' = Some dv)))
   \<and> (fst ` set kwargs \<inter> {''_FalseDelay_'', ''__class__'', ''__dict__'', ''__weakref__''} = {} \<longrightarrow>
        (\<exists>self'. init session hdrs enc r d kwargs = Inr self'
           \<and> ob_type self' = RequestHandler
           \<and> map_of (ob_dict self') ''delay''
               = Some (VDelay (case d of None \<Rightarrow> FalseDelay_init | Some d' \<Rightarrow> d'))
           \<and> (\<forall>k. k \<notin> {''logger'', ''session'', ''methods'', ''headers'', ''encodes'', ''retry'',
                        ''delay''}
                  \<longrightarrow> map_of (ob_dict self') k = map_of (rev kwargs) k)))"
proof (intro conjI impI)
  assume a: "init session hdrs enc r d kwargs = Inr self"
  obtain self0 dv where
    dv: "case d of Some d' \<Rightarrow> dv = VDelay d'
         | None \<Rightarrow> (\<exists>f. getattr_FalseDelay self0 = Inr f \<and> call0 f = Inr dv)"
    and ty: "ob_type self = ob_type self0"
    and m: "map_of (ob_dict self) =
        (map_of (ob_dict self0))
          (''logger'' \<mapsto> VLogger ''pyasst.spider'',
           ''session'' \<mapsto> VSession (if session then Session else Requests),
           ''methods'' \<mapsto> VDict (map (\<lambda>(k, b). (k, VBound b))
                              (bound_methods (if session then Session else Requests))),
           ''headers'' \<mapsto> (if hdrs = VNone then VDict HEADERS else hdrs),
           ''encodes'' \<mapsto> (case enc of VStr s \<Rightarrow> VTuple [enc] | VList es \<Rightarrow> VTuple es | _ \<Rightarrow> enc),
           ''retry'' \<mapsto> VInt r,
           ''delay'' \<mapsto> dv)"
    using init_Inr [OF a] by blast
  have g: "getattr_FalseDelay self = getattr_FalseDelay self0"
    by (simp add: getattr_FalseDelay_def m ty split: option.splits)
  show "map_of (ob_dict self) ''logger'' = Some (VLogger ''pyasst.spider'')"
    by (simp add: m)
  show "map_of (ob_dict self) ''session'' = Some (VSession (if session then Session else Requests))"
    by (simp add: m)
  show "map_of (ob_dict self) ''methods''
         = Some (VDict (map (\<lambda>(k, b). (k, VBound b))
                   (bound_methods (if session then Session else Requests))))"
    by (simp add: m)
  show "map_of (ob_dict self) ''headers'' = Some (if hdrs = VNone then VDict HEADERS else hdrs)"
    by (simp add: m)
  show "map_of (ob_dict self) ''encodes''
         = Some (case enc of VStr s \<Rightarrow> VTuple [enc] | VList es \<Rightarrow> VTuple es | _ \<Rightarrow> enc)"
    by (simp add: m)
  show "map_of (ob_dict self) ''retry'' = Some (VInt r)"
    by (simp add: m)
  show "\<forall>d'. d = Some d' \<longrightarrow> map_of (ob_dict self) ''delay'' = Some (VDelay d')"
    using dv by (auto simp: m)
  show "\<exists>f dv. getattr_FalseDelay self = Inr f \<and> call0 f = Inr dv
                 \<and> map_of (ob_dict self) ''delay'' = Some dv" if "d = None"
    using dv that by (auto simp: m g)
next
  assume a: "fst ` set kwargs \<inter> {''_FalseDelay_'', ''__class__'', ''__dict__'', ''__weakref__''} = {}"
  let ?o = "\<lparr>ob_type = RequestHandler, ob_dict = []\<rparr>"
  let ?self0 = "?o\<lparr>ob_dict := fold (\<lambda>(key, v). AList.update key v) kwargs (ob_dict ?o)\<rparr>"
  have s0: "setattrs ?o kwargs = Inr ?self0"
    using a by (intro setattrs_plain) auto
  have nk: "map_of (rev kwargs) ''_FalseDelay_'' = None"
    using a by (auto simp: map_of_eq_None_iff)
  have g0: "getattr_FalseDelay ?self0 = Inr (VClass FalseDelay)"
    by (simp add: getattr_FalseDelay_def map_of_fold_update nk)
  let ?s = "if session then Session else Requests"
  let ?six = "[(''logger'', VLogger ''pyasst.spider''),
               (''session'', VSession ?s),
               (''methods'', VDict (map (\<lambda>(k, b). (k, VBound b)) (bound_methods ?s))),
               (''headers'', if hdrs = VNone then VDict HEADERS else hdrs),
               (''encodes'', case enc of VStr s \<Rightarrow> VTuple [enc] | VList es \<Rightarrow> VTuple es | _ \<Rightarrow> enc),
               (''retry'', VInt r)]"
  let ?self6 = "?self0\<lparr>ob_dict := fold (\<lambda>(key, v). AList.update key v) ?six (ob_dict ?self0)\<rparr>"
  have six: "setattrs ?self0 ?six = Inr ?self6"
    by (rule setattrs_plain) simp
  have g: "getattr_FalseDelay ?self6 = Inr (VClass FalseDelay)"
    using g0 by (simp add: getattr_FalseDelay_def update_conv' split: option.splits)
  let ?d = "case d of None \<Rightarrow> FalseDelay_init | Some d' \<Rightarrow> d'"
  let ?self = "?self6\<lparr>ob_dict := AList.update ''delay'' (VDelay ?d) (ob_dict ?self6)\<rparr>"
  have fin: "setattr ?self6 ''delay'' (VDelay ?d) = Inr ?self"
    by (rule setattr_plain) simp
  let ?dv = "case d of Some d' \<Rightarrow> Inr (VDelay d')
             | None \<Rightarrow> (case getattr_FalseDelay ?self6 of Inl x \<Rightarrow> Inl x | Inr f \<Rightarrow> call0 f)"
  have i: "init session hdrs enc r d kwargs =
      (case ?dv of Inl x \<Rightarrow> Inl x | Inr dv \<Rightarrow> setattr ?self6 ''delay'' dv)"
    unfolding init_def s0 Let_def sum.case six ..
  have dv: "?dv = Inr (VDelay ?d)"
    by (cases d) (simp_all only: option.case g sum.case call0.simps)
  have "init session hdrs enc r d kwargs = Inr ?self"
    unfolding i dv sum.case by (rule fin)
  moreover have "ob_type ?self = RequestHandler" by simp
  moreover have "map_of (ob_dict ?self) ''delay'' = Some (VDelay ?d)"
    by (simp add: update_conv')
  moreover have "\<forall>k. k \<notin> {''logger'', ''session'', ''methods'', ''headers'', ''encodes'', ''retry'',
                        ''delay''}
                  \<longrightarrow> map_of (ob_dict ?self) k = map_of (rev kwargs) k"
    by (simp add: update_conv' map_of_fold_update split: option.splits)
  ultimately show "\<exists>self'. init session hdrs enc r d kwargs = Inr self'
           \<and> ob_type self' = RequestHandler
           \<and> map_of (ob_dict self') ''delay''
               = Some (VDelay (case d of None \<Rightarrow> FalseDelay_init | Some d' \<Rightarrow> d'))
           \<and> (\<forall>k. k \<notin> {''logger'', ''session'', ''methods'', ''headers'', ''encodes'', ''retry'',
                        ''delay''}
                  \<longrightarrow> map_of (ob_dict self') k = map_of (rev kwargs) k)"
    by blast
qed

text \<open>
  Extra keywords named like core attributes (three names that are not parameters of the
  constructor) and one other: the construction succeeds, the core attributes are those
  of \<^verbatim>\<open>RequestHandler(retry=5)\<close>, and \<^verbatim>\<open>proxy\<close> is kept.
\<close>

theorem init_core_attributes_witness:
  "init True VNone (VStr ''UTF-8'') 5 None
      [(''methods'', VNone), (''proxy'', VStr ''p''), (''logger'', VInt 0), (''encodes'', VNone)]
    = Inr \<lparr>ob_type = RequestHandler,
           ob_dict =
             [(''methods'', VDict (map (\<lambda>(k, b). (k, VBound b)) (bound_methods Session))),
              (''proxy'', VStr ''p''),
              (''logger'', VLogger ''pyasst.spider''),
              (''encodes'', VTuple [VStr ''UTF-8'']),
              (''session'', VSession Session),
              (''headers'', VDict HEADERS),
              (''retry'', VInt 5),
              (''delay'', VDelay FalseDelay_init)]\<rparr>
   \<and> map_sum id handler_of
        (init True VNone (VStr ''UTF-8'') 5 None
          [(''methods'', VNone), (''proxy'', VStr ''p''), (''logger'', VInt 0), (''encodes'', VNone)])
     = Inr (Some (example_handler 5 FalseDelay_init))"
proof -
  let ?kw = "[(''methods'', VNone), (''proxy'', VStr ''p''), (''logger'', VInt 0), (''encodes'', VNone)]"
  let ?self = "\<lparr>ob_type = RequestHandler,
           ob_dict =
             [(''methods'', VDict (map (\<lambda>(k, b). (k, VBound b)) (bound_methods Session))),
              (''proxy'', VStr ''p''),
              (''logger'', VLogger ''pyasst.spider''),
              (''encodes'', VTuple [VStr ''UTF-8'']),
              (''session'', VSession Session),
              (''headers'', VDict HEADERS),
              (''retry'', VInt 5),
              (''delay'', VDelay FalseDelay_init)]\<rparr>"
  have ev: "init True VNone (VStr ''UTF-8'') 5 None ?kw = Inr ?self"
    by (simp add: init_def setattr_def getattr_FalseDelay_def)
  note t = init_core_attributes [where session = True and hdrs = VNone and enc = "VStr ''UTF-8''"
      and r = 5 and d = None and kwargs = ?kw and self = ?self]
  have "handler_of ?self = Some (example_handler 5 FalseDelay_init)"
    by (simp add: handler_of_def example_handler_def bound_methods_def)
  with t ev show ?thesis by simp
qed

text \<open>
  The claim as it is worded fails for the extra keyword \<^verbatim>\<open>_FalseDelay_\<close>: with no \<^verbatim>\<open>delay\<close>
  argument, \<^verbatim>\<open>RequestHandler(_FalseDelay_=Delay)\<close> gets a counting \<^verbatim>\<open>Delay()\<close> as its delay,
  not the no-op one, and \<^verbatim>\<open>RequestHandler(_FalseDelay_=5)\<close> raises \<^verbatim>\<open>TypeError\<close>.
\<close>

theorem init_core_attributes_counterexample:
  "map_sum id (\<lambda>self. map_of (ob_dict self) ''delay'')
      (init True VNone (VStr ''UTF-8'') 3 None [(''_FalseDelay_'', VClass Delay)])
     = Inr (Some (VDelay (Delay_init 10 1)))
   \<and> map_sum id (\<lambda>self. map_of (ob_dict self) ''delay'')
      (init True VNone (VStr ''UTF-8'') 3 None [])
     = Inr (Some (VDelay FalseDelay_init))
   \<and> Delay_init 10 1 \<noteq> FalseDelay_init
   \<and> init True VNone (VStr ''UTF-8'') 3 None [(''_FalseDelay_'', VInt 5)] = Inl TypeError"
  by (simp add: init_def setattr_def getattr_FalseDelay_def FalseDelay_init_def Delay_init_def)

end
